theory Spec2Isabelle
  imports Main "HOL-Library.Word"
begin

unbundle bit_operations_syntax

section \<open>The zxcrypt superblock (system/ulib/zxcrypt/superblock.cpp)\<close>

text \<open>
  A shallow embedding of \<^verbatim>\<open>zxcrypt::Superblock\<close>. The object is a record, every method is a
  function from the object to a status and the updated object. A method returns \<open>None\<close>
  where the C++ has no defined result: a division by zero, a \<^verbatim>\<open>ValueOrDie\<close> that dies, a copy
  outside a buffer, or a loop that has used up its fuel.

  What lies outside the file is a parameter: the backing device with its ioctl answers
  (record \<open>world\<close>), the crypto library and the type GUID (record \<open>crypto\<close>), and the random
  source (an infinite byte sequence). Heap allocation by \<^verbatim>\<open>crypto::Bytes\<close> and the random
  source do not fail in this model, except the allocation of the block buffer in \<open>Init\<close>,
  whose status the world gives.
\<close>

subsection \<open>Status codes, sizes, constants\<close>

type_synonym byte = "8 word"
type_synonym bytes = "8 word list"
type_synonym size_t = "64 word"
type_synonym slot_num_t = "64 word"

text \<open>
  \<^verbatim>\<open>zx_status_t\<close>: \<open>ZX_OK\<close> is 0 and every other code is negative, so the source's test
  \<^verbatim>\<open>rc < 0\<close> on the result of \<^verbatim>\<open>Ioctl\<close> is \<open>rc \<noteq> ZX_OK\<close> here.
\<close>

datatype zx_status =
    ZX_OK
  | ZX_ERR_INTERNAL
  | ZX_ERR_NOT_SUPPORTED
  | ZX_ERR_NO_MEMORY
  | ZX_ERR_INVALID_ARGS
  | ZX_ERR_OUT_OF_RANGE
  | ZX_ERR_BAD_STATE
  | ZX_ERR_IO
  | ZX_ERR_IO_DATA_INTEGRITY
  | ZX_ERR_ACCESS_DENIED
  | ZX_ERR_NO_SPACE
  | ZX_ERR_STOP
  | ZX_ERR_NEXT

definition kNumSlots :: slot_num_t where
  "kNumSlots = 16"

definition kReservedPairs :: size_t where
  "kReservedPairs = 2"

definition GUID_LEN :: nat where
  "GUID_LEN = 16"

definition kHeaderLen :: nat where
  "kHeaderLen = GUID_LEN + GUID_LEN + 4"

definition kMaxLabelLen :: nat where
  "kMaxLabelLen = 16"

text \<open>\<^verbatim>\<open>PAGE_SIZE\<close> of the architecture headers (4 KiB on x86-64 and arm64).\<close>

definition PAGE_SIZE :: "32 word" where
  "PAGE_SIZE = 4096"

text \<open>
  \<^verbatim>\<open>Superblock::Version\<close>, an enum over \<^verbatim>\<open>uint32_t\<close>; a block read from disk may hold any
  32-bit value. \<open>kAES256_XTS_SHA256\<close> is 1 and it is the default version.
\<close>

type_synonym Version = "32 word"

definition kAES256_XTS_SHA256 :: Version where
  "kAES256_XTS_SHA256 = 1"

definition kDefaultVersion :: Version where
  "kDefaultVersion = kAES256_XTS_SHA256"

datatype aead_algorithm = AEAD_kUninitialized | kAES128_GCM | kAES128_GCM_SIV
datatype cipher_algorithm = Cipher_kUninitialized | kAES256_XTS
datatype digest_algorithm = digest_kUninitialized | kSHA256

subsection \<open>The world outside the object\<close>

record block_info_t =
  block_count :: "64 word"
  block_size :: "32 word"

record fvm_info_t =
  slice_size :: size_t
  vslice_count :: size_t

text \<open>
  The backing device. \<open>disk\<close> is its content, byte by byte. \<open>rd_status off\<close> and
  \<open>wr_status off\<close> give the status of a transfer at byte offset \<open>off\<close> and, when the status
  is not \<open>ZX_OK\<close>, how many bytes were transferred before it failed. \<open>wlog\<close> records the
  offset of every \<^verbatim>\<open>Write\<close> issued, the latest first. The ioctl fields are the answers of the
  device to the four ioctls of \<open>Init\<close>: a status and the out-parameter; \<open>block_resize\<close> is
  the status of allocating the block buffer.
\<close>

record world =
  disk :: "nat \<Rightarrow> byte"
  rd_status :: "64 word \<Rightarrow> zx_status \<times> nat"
  wr_status :: "64 word \<Rightarrow> zx_status \<times> nat"
  wlog :: "64 word list"
  ioctl_block_get_info :: "zx_status \<times> block_info_t"
  ioctl_block_fvm_query :: "zx_status \<times> fvm_info_t"
  ioctl_block_fvm_vslice_query :: "size_t \<Rightarrow> zx_status \<times> size_t \<times> size_t \<times> bool"
  ioctl_block_fvm_extend :: "size_t \<Rightarrow> size_t \<Rightarrow> zx_status"
  block_resize :: "nat \<Rightarrow> zx_status"

text \<open>
  The crypto library and the type GUID of the header file. A length getter returns a
  status and the length. \<open>HKDF_Init\<close> returns the state of the key derivation,
  \<open>HKDF_Derive\<close> fills a buffer of the given length. \<open>AEAD_Seal\<close> stands for
  \<^verbatim>\<open>SetAD\<close> followed by \<^verbatim>\<open>Seal\<close> (arguments: algorithm, key, IV, associated data, plaintext)
  and returns the IV it used and the ciphertext with its tag; \<open>AEAD_Open\<close> stands for
  \<^verbatim>\<open>SetAD\<close> followed by \<^verbatim>\<open>Open\<close>.
\<close>

record crypto =
  kTypeGuid :: bytes
  AEAD_GetKeyLen :: "aead_algorithm \<Rightarrow> zx_status \<times> size_t"
  AEAD_GetIVLen :: "aead_algorithm \<Rightarrow> zx_status \<times> size_t"
  AEAD_GetTagLen :: "aead_algorithm \<Rightarrow> zx_status \<times> size_t"
  Cipher_GetKeyLen :: "cipher_algorithm \<Rightarrow> zx_status \<times> size_t"
  Cipher_GetIVLen :: "cipher_algorithm \<Rightarrow> zx_status \<times> size_t"
  digest_GetDigestLen :: "digest_algorithm \<Rightarrow> zx_status \<times> size_t"
  HKDF_Init :: "digest_algorithm \<Rightarrow> bytes \<Rightarrow> bytes \<Rightarrow> zx_status \<times> bytes"
  HKDF_Derive :: "bytes \<Rightarrow> string \<Rightarrow> nat \<Rightarrow> zx_status \<times> bytes"
  AEAD_InitSeal :: "aead_algorithm \<Rightarrow> bytes \<Rightarrow> bytes \<Rightarrow> zx_status"
  AEAD_Seal :: "aead_algorithm \<Rightarrow> bytes \<Rightarrow> bytes \<Rightarrow> bytes \<Rightarrow> bytes \<Rightarrow> zx_status \<times> bytes \<times> bytes"
  AEAD_InitOpen :: "aead_algorithm \<Rightarrow> bytes \<Rightarrow> zx_status"
  AEAD_Open :: "aead_algorithm \<Rightarrow> bytes \<Rightarrow> bytes \<Rightarrow> bytes \<Rightarrow> bytes \<Rightarrow> zx_status \<times> bytes"

type_synonym entropy = "nat \<Rightarrow> byte"

subsection \<open>crypto::Bytes\<close>

text \<open>
  Modelled from the spec: the methods of \<^verbatim>\<open>crypto::Bytes\<close> (crypto/bytes.h is not among the
  sources). A buffer is the list of its bytes; \<^verbatim>\<open>get()\<close> is null exactly when the buffer is
  empty. \<open>Resize\<close> keeps the bytes that fit and fills with zeros, \<open>Randomize\<close> fills the
  buffer with random bytes, \<open>Split\<close> moves the last \<open>n\<close> bytes of a buffer into a buffer of
  length \<open>n\<close> and fails when there are fewer.
\<close>

definition Resize :: "nat \<Rightarrow> bytes \<Rightarrow> bytes" where
  "Resize n b = take n b @ replicate (n - length b) 0"

definition Randomize :: "entropy \<Rightarrow> nat \<Rightarrow> bytes" where
  "Randomize ent n = map ent [0..<n]"

definition skip :: "nat \<Rightarrow> entropy \<Rightarrow> entropy" where
  "skip n ent = (\<lambda>i. ent (n + i))"

definition Split :: "nat \<Rightarrow> bytes \<Rightarrow> zx_status \<times> bytes \<times> bytes" where
  "Split n p =
     (if length p < n then (ZX_ERR_OUT_OF_RANGE, p, [])
      else (ZX_OK, take (length p - n) p, drop (length p - n) p))"

text \<open>\<^verbatim>\<open>memcpy(dst + off, src, len)\<close> inside a buffer; the caller checks the range.\<close>

definition memcpy_at :: "bytes \<Rightarrow> nat \<Rightarrow> bytes \<Rightarrow> bytes" where
  "memcpy_at dst off src = take off dst @ src @ drop (off + length src) dst"

definition htonl_bytes :: "32 word \<Rightarrow> bytes" where
  "htonl_bytes v = [ucast (drop_bit 24 v), ucast (drop_bit 16 v), ucast (drop_bit 8 v), ucast v]"

definition ntohl_bytes :: "bytes \<Rightarrow> 32 word" where
  "ntohl_bytes b =
     push_bit 24 (ucast (b ! 0)) OR push_bit 16 (ucast (b ! 1)) OR
     push_bit 8 (ucast (b ! 2)) OR ucast (b ! 3)"

subsection \<open>The object\<close>

text \<open>
  The fields of \<^verbatim>\<open>Superblock\<close> (without their trailing underscore). \<open>dev\<close> says that
  \<^verbatim>\<open>dev_\<close> is not null (the object was opened by a driver); \<open>fd\<close> is the backing device,
  reached through \<^verbatim>\<open>fd_\<close> or through \<^verbatim>\<open>dev_\<close>. \<^verbatim>\<open>ZX_DEBUG_ASSERT\<close> is compiled out, as in a
  release build.
\<close>

record superblock =
  dev :: bool
  fd :: world
  blk :: block_info_t
  fvm :: fvm_info_t
  has_fvm :: bool
  block :: bytes
  offset :: "64 word"
  guid :: bytes
  header :: bytes
  aead :: aead_algorithm
  wrap_key :: bytes
  wrap_iv :: bytes
  cipher :: cipher_algorithm
  data_key :: bytes
  data_iv :: bytes
  slot_len :: size_t
  digest :: digest_algorithm
  digest_len :: size_t

definition Reset :: "superblock \<Rightarrow> superblock" where
  "Reset s = s\<lparr>
     blk := \<lparr>block_count = 0, block_size = 0\<rparr>,
     fvm := \<lparr>slice_size = 0, vslice_count = 0\<rparr>,
     has_fvm := False,
     block := [],
     offset := - 1,
     guid := [],
     aead := AEAD_kUninitialized,
     wrap_key := [],
     wrap_iv := [],
     cipher := Cipher_kUninitialized,
     data_key := [],
     data_iv := [],
     slot_len := 0,
     digest := digest_kUninitialized\<rparr>"

text \<open>
  The two constructors (\<open>d\<close> is true for the one that takes a driver device): the
  members are default-constructed (\<open>header\<close> is empty; \<open>digest_len\<close>
  has no initialiser and is not read before \<open>Configure\<close> sets it) and the body calls
  \<open>Reset\<close>.
\<close>

definition Superblock :: "bool \<Rightarrow> world \<Rightarrow> superblock" where
  "Superblock d w = Reset \<lparr>
     dev = d,
     fd = w,
     blk = \<lparr>block_count = 0, block_size = 0\<rparr>,
     fvm = \<lparr>slice_size = 0, vslice_count = 0\<rparr>,
     has_fvm = False,
     block = [],
     offset = 0,
     guid = [],
     header = [],
     aead = AEAD_kUninitialized,
     wrap_key = [],
     wrap_iv = [],
     cipher = Cipher_kUninitialized,
     data_key = [],
     data_iv = [],
     slot_len = 0,
     digest = digest_kUninitialized,
     digest_len = 0\<rparr>"

subsection \<open>Configuration methods\<close>

text \<open>
  \<open>Init\<close>. The body returns, with the status, whether it reached \<^verbatim>\<open>cleanup.cancel()\<close>;
  \<open>Init\<close> is the body run after \<open>Reset\<close> under the scoped cleanup, which calls \<open>Reset\<close> on
  every return that did not cancel it. A device that reports a block size of 0 makes
  \<^verbatim>\<open>PAGE_SIZE % blk_.block_size\<close> divide by zero.
\<close>

definition Init_body :: "superblock \<Rightarrow> (zx_status \<times> bool \<times> superblock) option" where
  "Init_body s0 =
    (let w = fd s0; (rc, info) = ioctl_block_get_info w in
     if rc \<noteq> ZX_OK then Some (rc, False, s0)
     else if block_size info = 0 then None
     else if block_size info < PAGE_SIZE \<and> PAGE_SIZE mod block_size info \<noteq> 0
       then Some (ZX_ERR_NOT_SUPPORTED, False, s0\<lparr>blk := info\<rparr>)
     else if \<not> block_size info < PAGE_SIZE \<and> block_size info mod PAGE_SIZE \<noteq> 0
       then Some (ZX_ERR_NOT_SUPPORTED, False, s0\<lparr>blk := info\<rparr>)
     else
      let blk1 = (if block_size info < PAGE_SIZE
                  then \<lparr>block_count = block_count info div ucast (PAGE_SIZE div block_size info),
                        block_size = PAGE_SIZE\<rparr>
                  else info);
          s1 = s0\<lparr>blk := blk1\<rparr>;
          rc = block_resize w (unat (block_size blk1)) in
      if rc \<noteq> ZX_OK then Some (rc, False, s1)
      else
       let s2 = s1\<lparr>block := Resize (unat (block_size blk1)) (block s1)\<rparr>;
           reserved_size = (ucast (block_size blk1) :: size_t) * kReservedPairs;
           (rc, finfo) = ioctl_block_fvm_query w in
       if rc = ZX_OK then
         (let s3 = s2\<lparr>fvm := finfo\<rparr> in
          if slice_size finfo < reserved_size \<or> vslice_count finfo < 2
            then Some (ZX_ERR_NO_SPACE, False, s3)
          else
           let (rc, count, range_count, allocated) =
                 ioctl_block_fvm_vslice_query w (vslice_count finfo - 1) in
           if rc \<noteq> ZX_OK then Some (rc, False, s3)
           else if count = 0 \<or> range_count = 0 then Some (ZX_ERR_INTERNAL, False, s3)
           else
            let rc = (if allocated then rc
                      else ioctl_block_fvm_extend w (vslice_count finfo - 1) 1) in
            if \<not> allocated \<and> rc \<noteq> ZX_OK then Some (rc, False, s3)
            else
             let s4 = s3\<lparr>has_fvm := True\<rparr>;
                 s5 = s4\<lparr>fvm := (fvm s4)\<lparr>vslice_count := vslice_count (fvm s4) - 2\<rparr>\<rparr>;
                 s6 = s5\<lparr>blk := (blk s5)\<lparr>block_count := block_count (blk s5) -
                        (slice_size (fvm s5) div ucast (block_size (blk s5))) * 2\<rparr>\<rparr>
             in Some (ZX_OK, True, s6))
       else if rc = ZX_ERR_NOT_SUPPORTED then
         (if block_count blk1 div 2 < kReservedPairs
            then Some (ZX_ERR_NO_SPACE, False, s2)
          else
           let s3 = s2\<lparr>fvm := \<lparr>slice_size = reserved_size,
                                vslice_count = block_count blk1 div kReservedPairs\<rparr>,
                       has_fvm := False\<rparr>;
               s5 = s3\<lparr>fvm := (fvm s3)\<lparr>vslice_count := vslice_count (fvm s3) - 2\<rparr>\<rparr>;
               s6 = s5\<lparr>blk := (blk s5)\<lparr>block_count := block_count (blk s5) -
                      (slice_size (fvm s5) div ucast (block_size (blk s5))) * 2\<rparr>\<rparr>
           in Some (ZX_OK, True, s6))
       else Some (rc, False, s2))"

definition Init :: "superblock \<Rightarrow> (zx_status \<times> superblock) option" where
  "Init s =
    (case Init_body (Reset s) of
       None \<Rightarrow> None
     | Some (rc, cancelled, s') \<Rightarrow> Some (rc, if cancelled then s' else Reset s'))"

text \<open>
  \<open>Configure\<close>. \<^verbatim>\<open>slot_len_\<close> is a \<^verbatim>\<open>size_t\<close> sum; the total is a checked number, and
  \<^verbatim>\<open>ValueOrDie\<close> ends the process when \<open>slot_len * kNumSlots + kHeaderLen\<close> does not fit
  in 64 bits.
\<close>

definition Configure :: "crypto \<Rightarrow> Version \<Rightarrow> superblock \<Rightarrow> (zx_status \<times> superblock) option" where
  "Configure cr version s =
    (if version \<noteq> kAES256_XTS_SHA256 then Some (ZX_ERR_NOT_SUPPORTED, s)
     else
      let s = s\<lparr>aead := kAES128_GCM_SIV, cipher := kAES256_XTS, digest := kSHA256\<rparr>;
          (rc, wrap_key_len) = AEAD_GetKeyLen cr (aead s) in
      if rc \<noteq> ZX_OK then Some (rc, s) else
      let (rc, wrap_iv_len) = AEAD_GetIVLen cr (aead s) in
      if rc \<noteq> ZX_OK then Some (rc, s) else
      let (rc, tag_len) = AEAD_GetTagLen cr (aead s) in
      if rc \<noteq> ZX_OK then Some (rc, s) else
      let (rc, data_key_len) = Cipher_GetKeyLen cr (cipher s) in
      if rc \<noteq> ZX_OK then Some (rc, s) else
      let (rc, data_iv_len) = Cipher_GetIVLen cr (cipher s) in
      if rc \<noteq> ZX_OK then Some (rc, s) else
      let (rc, dlen) = digest_GetDigestLen cr (digest s) in
      if rc \<noteq> ZX_OK then Some (rc, s) else
      let s = s\<lparr>digest_len := dlen,
                 wrap_key := Resize (unat wrap_key_len) (wrap_key s),
                 wrap_iv := Resize (unat wrap_iv_len) (wrap_iv s),
                 data_key := Resize (unat data_key_len) (data_key s),
                 data_iv := Resize (unat data_iv_len) (data_iv s)\<rparr>;
          s = s\<lparr>slot_len := data_key_len + data_iv_len + tag_len\<rparr>;
          total = unat (slot_len s) * unat kNumSlots + kHeaderLen in
      if 2 ^ 64 \<le> total then None
      else if unat (block_size (blk s)) < total then Some (ZX_ERR_NOT_SUPPORTED, s)
      else Some (ZX_OK, s))"

text \<open>
  \<open>DeriveSlotKeys\<close>. The label is what \<^verbatim>\<open>snprintf(label, kMaxLabelLen, "wrap key %" PRIu64, slot)\<close>
  leaves in the buffer: at most \<open>kMaxLabelLen - 1\<close> characters before the terminator.
\<close>

fun dec :: "nat \<Rightarrow> string" where
  "dec n = (if n < 10 then [''0123456789'' ! n] else dec (n div 10) @ [''0123456789'' ! (n mod 10)])"

definition kWrapKeyLabel :: string where
  "kWrapKeyLabel = ''wrap key ''"

definition kWrapIvLabel :: string where
  "kWrapIvLabel = ''wrap iv ''"

definition label :: "string \<Rightarrow> slot_num_t \<Rightarrow> string" where
  "label fmt slot = take (kMaxLabelLen - 1) (fmt @ dec (unat slot))"

definition DeriveSlotKeys :: "crypto \<Rightarrow> bytes \<Rightarrow> slot_num_t \<Rightarrow> superblock \<Rightarrow> zx_status \<times> superblock" where
  "DeriveSlotKeys cr key slot s =
    (let (rc, hkdf) = HKDF_Init cr (digest s) key (guid s) in
     if rc \<noteq> ZX_OK then (rc, s) else
     let (rc, wk) = HKDF_Derive cr hkdf (label kWrapKeyLabel slot) (length (wrap_key s)) in
     if rc \<noteq> ZX_OK then (rc, s) else
     let s = s\<lparr>wrap_key := wk\<rparr>;
         (rc, wi) = HKDF_Derive cr hkdf (label kWrapIvLabel slot) (length (wrap_iv s)) in
     if rc \<noteq> ZX_OK then (rc, s)
     else (ZX_OK, s\<lparr>wrap_iv := wi\<rparr>))"

subsection \<open>Device methods\<close>

definition read_bytes :: "(nat \<Rightarrow> byte) \<Rightarrow> nat \<Rightarrow> nat \<Rightarrow> bytes" where
  "read_bytes d off n = map (\<lambda>i. d (off + i)) [0..<n]"

definition write_bytes :: "(nat \<Rightarrow> byte) \<Rightarrow> nat \<Rightarrow> bytes \<Rightarrow> (nat \<Rightarrow> byte)" where
  "write_bytes d off b = (\<lambda>a. if off \<le> a \<and> a < off + length b then b ! (a - off) else d a)"

text \<open>
  \<open>Read\<close> and \<open>Write\<close> transfer \<^verbatim>\<open>block_.len()\<close> bytes at \<^verbatim>\<open>offset_\<close>. With a driver device
  they go through \<^verbatim>\<open>SyncIO\<close>, which refuses an empty buffer before any I/O and returns the
  status of the transaction; with a file descriptor every failure of \<^verbatim>\<open>lseek\<close>, \<^verbatim>\<open>read\<close> or
  \<^verbatim>\<open>write\<close>, and every short transfer, is \<open>ZX_ERR_IO\<close>. A failed transfer has moved the
  number of bytes the world gives, at most the length asked for; \<^verbatim>\<open>SyncIO\<close> copies what was
  read into the block buffer only when the whole transaction succeeded, so a failed read
  of a driver device leaves the buffer as it was.
\<close>

definition Read :: "superblock \<Rightarrow> zx_status \<times> superblock" where
  "Read s =
    (let w = fd s; n = length (block s); (rc, k) = rd_status w (offset s) in
     if dev s \<and> block s = [] then (ZX_ERR_INVALID_ARGS, s)
     else if rc = ZX_OK then (ZX_OK, s\<lparr>block := read_bytes (disk w) (unat (offset s)) n\<rparr>)
     else if dev s then (rc, s)
     else (ZX_ERR_IO,
           s\<lparr>block := read_bytes (disk w) (unat (offset s)) (min k n) @
                        drop (min k n) (block s)\<rparr>))"

definition Write :: "superblock \<Rightarrow> zx_status \<times> superblock" where
  "Write s =
    (let w = fd s; (rc, k) = wr_status w (offset s);
         w1 = w\<lparr>wlog := offset s # wlog w\<rparr> in
     if dev s \<and> block s = [] then (ZX_ERR_INVALID_ARGS, s)
     else if rc = ZX_OK
       then (ZX_OK, s\<lparr>fd := w1\<lparr>disk := write_bytes (disk w) (unat (offset s)) (block s)\<rparr>\<rparr>)
     else (if dev s then rc else ZX_ERR_IO,
           s\<lparr>fd := w1\<lparr>disk := write_bytes (disk w) (unat (offset s)) (take k (block s))\<rparr>\<rparr>))"

subsection \<open>Block methods\<close>

definition Begin :: "superblock \<Rightarrow> zx_status \<times> superblock" where
  "Begin s =
    (if slice_size (fvm s) = 0 then (ZX_ERR_STOP, s)
     else (ZX_ERR_NEXT, s\<lparr>offset := 0\<rparr>))"

text \<open>\<open>Next\<close> divides by \<^verbatim>\<open>fvm_.slice_size\<close>: no result when it is 0.\<close>

definition Next :: "superblock \<Rightarrow> (zx_status \<times> superblock) option" where
  "Next s =
    (let s = s\<lparr>offset := offset s + of_nat (length (block s))\<rparr> in
     if slice_size (fvm s) = 0 then None
     else
      let slice_offset = offset s mod slice_size (fvm s) in
      if slice_offset \<noteq> 0 \<and> slice_offset < slice_size (fvm s) then Some (ZX_ERR_NEXT, s)
      else if offset s \<le> slice_size (fvm s)
        then Some (ZX_ERR_NEXT, s\<lparr>offset := (vslice_count (fvm s) + 1) * slice_size (fvm s)\<rparr>)
      else Some (ZX_ERR_STOP, s))"

text \<open>
  The loop \<^verbatim>\<open>for (rc = Begin(); rc == ZX_ERR_NEXT; rc = Next()) body\<close> of \<open>Shred\<close>,
  \<open>CommitBlock\<close> and \<open>Open\<close>. The body returns \<open>Some rc\<close> when it leaves the method with
  \<^verbatim>\<open>return rc\<close> and \<open>None\<close> when the loop goes on. The first argument bounds the number of
  iterations: the loop has no result when it is used up.
\<close>

fun iterate :: "nat \<Rightarrow> (superblock \<Rightarrow> (zx_status option \<times> superblock) option) \<Rightarrow>
    zx_status \<times> superblock \<Rightarrow> (zx_status option \<times> superblock) option" where
  "iterate 0 body (rc, s) = None"
| "iterate (Suc fuel) body (rc, s) =
    (if rc \<noteq> ZX_ERR_NEXT then Some (None, s)
     else case body s of
       None \<Rightarrow> None
     | Some (Some r, s') \<Rightarrow> Some (Some r, s')
     | Some (None, s') \<Rightarrow>
         (case Next s' of None \<Rightarrow> None | Some n \<Rightarrow> iterate fuel body n))"

definition CreateBlock :: "crypto \<Rightarrow> entropy \<Rightarrow> superblock \<Rightarrow> (zx_status \<times> superblock) option" where
  "CreateBlock cr ent s =
    (let s = s\<lparr>block := Randomize ent (length (block s))\<rparr>;
         ent = skip (length (block s)) ent in
     if length (block s) < GUID_LEN + GUID_LEN then None else
     let s = s\<lparr>block := memcpy_at (block s) 0 (take GUID_LEN (kTypeGuid cr))\<rparr>;
         g = Randomize ent GUID_LEN;
         ent = skip GUID_LEN ent;
         g = g[6 := (g ! 6 AND 0x0F) OR 0x40];
         g = g[8 := (g ! 8 AND 0x3F) OR 0x80];
         s = s\<lparr>guid := g\<rparr>;
         s = s\<lparr>block := memcpy_at (block s) GUID_LEN (guid s)\<rparr> in
     case Configure cr kDefaultVersion s of
       None \<Rightarrow> None
     | Some (rc, s) \<Rightarrow>
        if rc \<noteq> ZX_OK then Some (rc, s)
        else if length (block s) < kHeaderLen then None
        else
         let s = s\<lparr>block := memcpy_at (block s) (GUID_LEN + GUID_LEN) (htonl_bytes kDefaultVersion)\<rparr>;
             s = s\<lparr>data_key := Randomize ent (length (data_key s))\<rparr>;
             ent = skip (length (data_key s)) ent;
             s = s\<lparr>data_iv := Randomize ent (length (data_iv s))\<rparr>;
             s = s\<lparr>header := take kHeaderLen (block s)\<rparr>
         in Some (ZX_OK, s))"

text \<open>
  \<open>CommitBlock\<close>. The result of \<^verbatim>\<open>Write\<close> is logged and dropped; the method returns \<open>ZX_OK\<close>
  whatever happened.
\<close>

definition CommitBlock_body :: "bytes \<Rightarrow> superblock \<Rightarrow> (zx_status option \<times> superblock) option" where
  "CommitBlock_body blockcopy s =
    (let (rc, s) = Read s in
     if rc = ZX_OK \<and> block s = blockcopy then Some (None, s)
     else
      let s = s\<lparr>block := blockcopy\<rparr>;
          (rc, s) = Write s
      in Some (None, s))"

definition CommitBlock :: "nat \<Rightarrow> superblock \<Rightarrow> (zx_status \<times> superblock) option" where
  "CommitBlock fuel s =
    (case iterate fuel (CommitBlock_body (block s)) (Begin s) of
       None \<Rightarrow> None
     | Some (Some rc, s') \<Rightarrow> Some (rc, s')
     | Some (None, s') \<Rightarrow> Some (ZX_OK, s'))"

text \<open>
  \<open>SealBlock\<close>. The final \<^verbatim>\<open>memcpy\<close> has no bounds check of its own: outside the block buffer
  it has no defined result.
\<close>

definition SealBlock :: "crypto \<Rightarrow> bytes \<Rightarrow> slot_num_t \<Rightarrow> superblock \<Rightarrow> (zx_status \<times> superblock) option" where
  "SealBlock cr key slot s =
    (let off = of_nat kHeaderLen + slot_len s * slot;
         ptext = data_key s @ data_iv s;
         (rc, s) = DeriveSlotKeys cr key slot s in
     if rc \<noteq> ZX_OK then Some (rc, s) else
     let rc = AEAD_InitSeal cr (aead s) (wrap_key s) (wrap_iv s) in
     if rc \<noteq> ZX_OK then Some (rc, s) else
     let (rc, iv, ctext) = AEAD_Seal cr (aead s) (wrap_key s) (wrap_iv s) (header s) ptext in
     if rc \<noteq> ZX_OK then Some (rc, s) else
     let s = s\<lparr>wrap_iv := iv\<rparr> in
     if length (block s) < unat off + length ctext then None
     else Some (ZX_OK, s\<lparr>block := memcpy_at (block s) (unat off) ctext\<rparr>))"

text \<open>
  \<open>OpenBlock\<close>. After the instance GUID is saved \<open>rc\<close> is \<open>ZX_OK\<close>. The source then tests
  \<^verbatim>\<open>(rc != Configure(...)) != ZX_OK || (rc != DeriveSlotKeys(key, slot)) != ZX_OK\<close>: each
  comparison \<^verbatim>\<open>rc != ...\<close> is a truth value, nothing is assigned to \<open>rc\<close>, and the branch
  taken returns \<open>rc\<close>.
\<close>

definition OpenBlock :: "crypto \<Rightarrow> bytes \<Rightarrow> slot_num_t \<Rightarrow> superblock \<Rightarrow> (zx_status \<times> superblock) option" where
  "OpenBlock cr key slot s =
    (if length (block s) < kHeaderLen then None
     else if take GUID_LEN (block s) \<noteq> take GUID_LEN (kTypeGuid cr)
       then Some (ZX_ERR_NOT_SUPPORTED, s)
     else
      let s = s\<lparr>guid := take GUID_LEN (drop GUID_LEN (block s))\<rparr>;
          rc = ZX_OK;
          version = ntohl_bytes (take 4 (drop (GUID_LEN + GUID_LEN) (block s))) in
      case Configure cr version s of
        None \<Rightarrow> None
      | Some (rc_configure, s) \<Rightarrow>
         if rc \<noteq> rc_configure then Some (rc, s)
         else
          let (rc_derive, s) = DeriveSlotKeys cr key slot s in
          if rc \<noteq> rc_derive then Some (rc, s)
          else
           let off = of_nat kHeaderLen + slot_len s * slot in
           if length (block s) < unat off + unat (slot_len s) then None
           else
            let ctext = take (unat (slot_len s)) (drop (unat off) (block s));
                rc = AEAD_InitOpen cr (aead s) (wrap_key s) in
            if rc \<noteq> ZX_OK then Some (rc, s) else
            let s = s\<lparr>header := take kHeaderLen (block s)\<rparr>;
                (rc, ptext) = AEAD_Open cr (aead s) (wrap_key s) (wrap_iv s) (header s) ctext in
            if rc \<noteq> ZX_OK then Some (rc, s) else
            let (rc, ptext, iv) = Split (length (data_iv s)) ptext in
            if rc \<noteq> ZX_OK then Some (rc, s) else
            let s = s\<lparr>data_iv := iv\<rparr>;
                (rc, ptext, k) = Split (length (data_key s)) ptext in
            if rc \<noteq> ZX_OK then Some (rc, s) else
            let s = s\<lparr>data_key := k\<rparr> in
            if length ptext \<noteq> 0 then Some (ZX_ERR_INTERNAL, s)
            else Some (ZX_OK, s))"

text \<open>The private \<open>Open(key, slot)\<close>.\<close>

definition Open_body :: "nat \<Rightarrow> crypto \<Rightarrow> bytes \<Rightarrow> slot_num_t \<Rightarrow> superblock \<Rightarrow>
    (zx_status option \<times> superblock) option" where
  "Open_body fuel cr key slot s =
    (let (rc, s) = Read s in
     if rc \<noteq> ZX_OK then Some (None, s)
     else
      (case OpenBlock cr key slot s of
         None \<Rightarrow> None
       | Some (rc, s) \<Rightarrow>
          if rc \<noteq> ZX_OK then Some (None, s)
          else (case CommitBlock fuel s of
                  None \<Rightarrow> None
                | Some (rc, s) \<Rightarrow> Some (Some rc, s))))"

definition Open :: "nat \<Rightarrow> crypto \<Rightarrow> bytes \<Rightarrow> slot_num_t \<Rightarrow> superblock \<Rightarrow> (zx_status \<times> superblock) option" where
  "Open fuel cr key slot s =
    (case iterate fuel (Open_body fuel cr key slot) (Begin s) of
       None \<Rightarrow> None
     | Some (Some rc, s') \<Rightarrow> Some (rc, s')
     | Some (None, s') \<Rightarrow> Some (ZX_ERR_ACCESS_DENIED, s'))"

subsection \<open>Library and driver methods\<close>

text \<open>
  \<open>Create\<close> and the two static \<open>Open\<close>. The device argument is \<open>None\<close> for an invalid file
  descriptor or a null device; \<open>out\<close> says that the out-pointer is not null. \<open>Create\<close>
  returns, beside the status, the local object as it is when the function returns, so
  that the device and the key material it generated can be spoken of; \<open>Open\<close> returns the
  object it stores in \<^verbatim>\<open>*out\<close>.
\<close>

definition Create :: "nat \<Rightarrow> crypto \<Rightarrow> entropy \<Rightarrow> world option \<Rightarrow> bytes \<Rightarrow>
    (zx_status \<times> superblock option) option" where
  "Create fuel cr ent fdesc key =
    (case fdesc of
       None \<Rightarrow> Some (ZX_ERR_INVALID_ARGS, None)
     | Some w \<Rightarrow>
        (case Init (Superblock False w) of
           None \<Rightarrow> None
         | Some (rc, s) \<Rightarrow>
            if rc \<noteq> ZX_OK then Some (rc, Some s) else
            (case CreateBlock cr ent s of
               None \<Rightarrow> None
             | Some (rc, s) \<Rightarrow>
                if rc \<noteq> ZX_OK then Some (rc, Some s) else
                (case SealBlock cr key 0 s of
                   None \<Rightarrow> None
                 | Some (rc, s) \<Rightarrow>
                    if rc \<noteq> ZX_OK then Some (rc, Some s) else
                    (case CommitBlock fuel s of
                       None \<Rightarrow> None
                     | Some (rc, s) \<Rightarrow>
                        if rc \<noteq> ZX_OK then Some (rc, Some s) else Some (ZX_OK, Some s))))))"

definition Open_static :: "bool \<Rightarrow> nat \<Rightarrow> crypto \<Rightarrow> world option \<Rightarrow> bytes \<Rightarrow> slot_num_t \<Rightarrow> bool \<Rightarrow>
    (zx_status \<times> superblock option) option" where
  "Open_static d fuel cr fdesc key slot out =
    (case fdesc of
       None \<Rightarrow> Some (ZX_ERR_INVALID_ARGS, None)
     | Some w \<Rightarrow>
        if kNumSlots \<le> slot \<or> \<not> out then Some (ZX_ERR_INVALID_ARGS, None) else
        (case Init (Superblock d w) of
           None \<Rightarrow> None
         | Some (rc, s) \<Rightarrow>
            if rc \<noteq> ZX_OK then Some (rc, None) else
            (case Open fuel cr key slot s of
               None \<Rightarrow> None
             | Some (rc, s) \<Rightarrow>
                if rc \<noteq> ZX_OK then Some (rc, None) else Some (ZX_OK, Some s))))"

definition Open_fd :: "nat \<Rightarrow> crypto \<Rightarrow> world option \<Rightarrow> bytes \<Rightarrow> slot_num_t \<Rightarrow> bool \<Rightarrow>
    (zx_status \<times> superblock option) option" where
  "Open_fd = Open_static False"

definition Open_dev :: "nat \<Rightarrow> crypto \<Rightarrow> world option \<Rightarrow> bytes \<Rightarrow> slot_num_t \<Rightarrow> bool \<Rightarrow>
    (zx_status \<times> superblock option) option" where
  "Open_dev = Open_static True"

definition Enroll :: "nat \<Rightarrow> crypto \<Rightarrow> bytes \<Rightarrow> slot_num_t \<Rightarrow> superblock \<Rightarrow> (zx_status \<times> superblock) option" where
  "Enroll fuel cr key slot s =
    (if kNumSlots \<le> slot then Some (ZX_ERR_INVALID_ARGS, s)
     else if block s = [] then Some (ZX_ERR_BAD_STATE, s)
     else
      (case SealBlock cr key slot s of
         None \<Rightarrow> None
       | Some (rc, s) \<Rightarrow>
          if rc \<noteq> ZX_OK then Some (rc, s) else
          (case CommitBlock fuel s of
             None \<Rightarrow> None
           | Some (rc, s) \<Rightarrow> if rc \<noteq> ZX_OK then Some (rc, s) else Some (ZX_OK, s))))"

text \<open>
  Modelled from the spec: \<^verbatim>\<open>Bytes::Copy(src, off)\<close>, used by \<open>Revoke\<close> to overwrite the slot
  with random bytes; it refuses a range that wraps and grows the buffer when the range
  ends behind it.
\<close>

definition Copy_at :: "bytes \<Rightarrow> size_t \<Rightarrow> bytes \<Rightarrow> zx_status \<times> bytes" where
  "Copy_at dst off src =
    (if 2 ^ 64 \<le> unat off + length src then (ZX_ERR_INVALID_ARGS, dst)
     else (ZX_OK, memcpy_at (Resize (max (length dst) (unat off + length src)) dst) (unat off) src))"

definition Revoke :: "nat \<Rightarrow> entropy \<Rightarrow> slot_num_t \<Rightarrow> superblock \<Rightarrow> (zx_status \<times> superblock) option" where
  "Revoke fuel ent slot s =
    (if kNumSlots \<le> slot then Some (ZX_ERR_INVALID_ARGS, s)
     else if block s = [] then Some (ZX_ERR_BAD_STATE, s)
     else
      let off = of_nat kHeaderLen + slot_len s * slot;
          invalid = Randomize ent (unat (slot_len s));
          (rc, b) = Copy_at (block s) off invalid in
      if rc \<noteq> ZX_OK then Some (rc, s) else
      (case CommitBlock fuel (s\<lparr>block := b\<rparr>) of
         None \<Rightarrow> None
       | Some (rc, s) \<Rightarrow> if rc \<noteq> ZX_OK then Some (rc, s) else Some (ZX_OK, s)))"

definition Shred_body :: "superblock \<Rightarrow> (zx_status option \<times> superblock) option" where
  "Shred_body s =
    (let (rc, s) = Write s in
     if rc \<noteq> ZX_OK then Some (Some rc, s) else Some (None, s))"

definition Shred :: "nat \<Rightarrow> entropy \<Rightarrow> superblock \<Rightarrow> (zx_status \<times> superblock) option" where
  "Shred fuel ent s =
    (if block s = [] then Some (ZX_ERR_BAD_STATE, s)
     else
      let s = s\<lparr>block := Randomize ent (length (block s))\<rparr> in
      case iterate fuel Shred_body (Begin s) of
        None \<Rightarrow> None
      | Some (Some rc, s') \<Rightarrow> Some (rc, s')
      | Some (None, s') \<Rightarrow> Some (ZX_OK, Reset s'))"

text \<open>\<open>GetInfo\<close>: the two arguments say which out-pointers are not null.\<close>

definition GetInfo :: "bool \<Rightarrow> bool \<Rightarrow> superblock \<Rightarrow> zx_status \<times> block_info_t option \<times> fvm_info_t option" where
  "GetInfo out_blk out_fvm s =
    (if block s = [] then (ZX_ERR_BAD_STATE, None, None)
     else (ZX_OK, if out_blk then Some (blk s) else None, if out_fvm then Some (fvm s) else None))"

subsection \<open>The locations of the metadata blocks\<close>

text \<open>
  The byte offsets of the whole blocks of the first slice, then of the slice that begins at
  \<open>(vslice_count + 1) * slice_size\<close>, and the offset at which \<open>Next\<close> stops. \<open>geom_ok\<close>
  says that the block buffer is not empty, that the slice is made of whole blocks, and
  that the end of the last reserved slice is below \<open>2 ^ 64\<close>.
\<close>

definition blocks_per_slice :: "superblock \<Rightarrow> nat" where
  "blocks_per_slice s = unat (slice_size (fvm s)) div length (block s)"

definition last_slice :: "superblock \<Rightarrow> nat" where
  "last_slice s = (unat (vslice_count (fvm s)) + 1) * unat (slice_size (fvm s))"

definition locations :: "superblock \<Rightarrow> 64 word list" where
  "locations s =
     map (\<lambda>k. of_nat (k * length (block s))) [0..<blocks_per_slice s] @
     map (\<lambda>k. of_nat (last_slice s + k * length (block s))) [0..<blocks_per_slice s]"

definition end_offset :: "superblock \<Rightarrow> 64 word" where
  "end_offset s = of_nat (last_slice s + unat (slice_size (fvm s)))"

definition geom_ok :: "superblock \<Rightarrow> bool" where
  "geom_ok s \<longleftrightarrow>
     0 < length (block s) \<and> 0 < unat (slice_size (fvm s)) \<and>
     unat (slice_size (fvm s)) mod length (block s) = 0 \<and>
     last_slice s + unat (slice_size (fvm s)) < 2 ^ 64"

text \<open>
  What the loop is meant to do, as a recursion over a list of locations: run the body at
  each location in turn, leave with the first status the body returns, and otherwise end
  with the iterator at \<open>fin\<close>. \<open>keeps_geometry n\<close> says that a loop body run on a block
  buffer of \<open>n\<close> bytes, when it lets the loop go on, leaves alone what \<open>Next\<close> reads: the
  length of the block buffer, the FVM geometry and the offset.
\<close>

fun visit :: "(superblock \<Rightarrow> (zx_status option \<times> superblock) option) \<Rightarrow> 64 word \<Rightarrow> 64 word list \<Rightarrow>
    superblock \<Rightarrow> (zx_status option \<times> superblock) option" where
  "visit body fin [] s = Some (None, s\<lparr>offset := fin\<rparr>)"
| "visit body fin (l # ls) s =
    (case body (s\<lparr>offset := l\<rparr>) of
       None \<Rightarrow> None
     | Some (Some r, s') \<Rightarrow> Some (Some r, s')
     | Some (None, s') \<Rightarrow> visit body fin ls s')"

definition keeps_geometry :: "nat \<Rightarrow> (superblock \<Rightarrow> (zx_status option \<times> superblock) option) \<Rightarrow> bool" where
  "keeps_geometry n body \<longleftrightarrow>
     (\<forall>s s'. length (block s) = n \<longrightarrow> body s = Some (None, s') \<longrightarrow>
        length (block s') = n \<and> fvm s' = fvm s \<and> offset s' = offset s)"

text \<open>The block information of the device after \<open>Init\<close> has aligned it to pages.\<close>

definition page_aligned :: "block_info_t \<Rightarrow> block_info_t" where
  "page_aligned info =
     (if block_size info < PAGE_SIZE
      then \<lparr>block_count = block_count info div ucast (PAGE_SIZE div block_size info),
            block_size = PAGE_SIZE\<rparr>
      else info)"

text \<open>
  The offsets at which the loop runs its body: \<^verbatim>\<open>offset_\<close> after \<open>Begin\<close> and after each
  \<open>Next\<close> that returns \<open>ZX_ERR_NEXT\<close>, for a body that changes nothing.
\<close>

fun offsets :: "nat \<Rightarrow> zx_status \<times> superblock \<Rightarrow> 64 word list option" where
  "offsets 0 (rc, s) = None"
| "offsets (Suc fuel) (rc, s) =
    (if rc \<noteq> ZX_ERR_NEXT then Some []
     else case Next s of
       None \<Rightarrow> None
     | Some n \<Rightarrow> map_option ((#) (offset s)) (offsets fuel n))"

text \<open>
  \<open>Shred\<close> over a list of locations: the status it returns and the locations it issues a
  \<^verbatim>\<open>Write\<close> to (the locations written and the one whose write failed), given the status
  of the device's writes; \<open>d\<close> says that the device is a driver device.
\<close>

fun shred_status :: "bool \<Rightarrow> world \<Rightarrow> 64 word list \<Rightarrow> zx_status" where
  "shred_status d w [] = ZX_OK"
| "shred_status d w (l # ls) =
     (if fst (wr_status w l) \<noteq> ZX_OK then (if d then fst (wr_status w l) else ZX_ERR_IO)
      else shred_status d w ls)"

fun shred_written :: "world \<Rightarrow> 64 word list \<Rightarrow> 64 word list" where
  "shred_written w [] = []"
| "shred_written w (l # ls) =
     l # (if fst (wr_status w l) \<noteq> ZX_OK then [] else shred_written w ls)"

text \<open>
  The disk \<open>Shred\<close> leaves when it writes the block \<open>B\<close> over a list of locations: the whole
  block at each location written, and at the location of the first write that fails the
  bytes the device had transferred.
\<close>

fun shred_disk :: "world \<Rightarrow> bytes \<Rightarrow> 64 word list \<Rightarrow> (nat \<Rightarrow> byte) \<Rightarrow> (nat \<Rightarrow> byte)" where
  "shred_disk w B [] d = d"
| "shred_disk w B (l # ls) d =
     (if fst (wr_status w l) \<noteq> ZX_OK
        then write_bytes d (unat l) (take (snd (wr_status w l)) B)
      else shred_disk w B ls (write_bytes d (unat l) B))"

text \<open>
  \<open>open_any\<close> of the specification, over a list of locations: read each location and try
  to open the block read; at the first block that opens, commit and return what the commit
  returns; when no location is left, access is denied.
\<close>

fun open_any :: "nat \<Rightarrow> crypto \<Rightarrow> bytes \<Rightarrow> slot_num_t \<Rightarrow> 64 word \<Rightarrow> 64 word list \<Rightarrow> superblock \<Rightarrow>
    (zx_status \<times> superblock) option" where
  "open_any fuel cr key slot fin [] s = Some (ZX_ERR_ACCESS_DENIED, s\<lparr>offset := fin\<rparr>)"
| "open_any fuel cr key slot fin (l # ls) s =
    (let (rc, s) = Read (s\<lparr>offset := l\<rparr>) in
     if rc \<noteq> ZX_OK then open_any fuel cr key slot fin ls s
     else
      (case OpenBlock cr key slot s of
         None \<Rightarrow> None
       | Some (rc, s) \<Rightarrow>
          if rc = ZX_OK then CommitBlock fuel s
          else open_any fuel cr key slot fin ls s))"

subsection \<open>A device and a crypto library to instantiate the theorems\<close>

text \<open>
  A raw device (no FVM) of \<open>n\<close> blocks of 4096 bytes on which no transfer fails, and an
  FVM partition of \<open>n\<close> slices of 16384 bytes.
\<close>

definition raw_device :: "64 word \<Rightarrow> world" where
  "raw_device n = \<lparr>
     disk = (\<lambda>a. 0),
     rd_status = (\<lambda>off. (ZX_OK, 0)),
     wr_status = (\<lambda>off. (ZX_OK, 0)),
     wlog = [],
     ioctl_block_get_info = (ZX_OK, \<lparr>block_count = n, block_size = 4096\<rparr>),
     ioctl_block_fvm_query = (ZX_ERR_NOT_SUPPORTED, \<lparr>slice_size = 0, vslice_count = 0\<rparr>),
     ioctl_block_fvm_vslice_query = (\<lambda>i. (ZX_ERR_NOT_SUPPORTED, 0, 0, False)),
     ioctl_block_fvm_extend = (\<lambda>i n. ZX_ERR_NOT_SUPPORTED),
     block_resize = (\<lambda>n. ZX_OK)\<rparr>"

definition fvm_device :: "64 word \<Rightarrow> world" where
  "fvm_device n = (raw_device (4 * n))\<lparr>
     ioctl_block_fvm_query := (ZX_OK, \<lparr>slice_size = 16384, vslice_count = n\<rparr>),
     ioctl_block_fvm_vslice_query := (\<lambda>i. (ZX_OK, 1, 1, True)),
     ioctl_block_fvm_extend := (\<lambda>i n. ZX_OK)\<rparr>"

text \<open>
  A stand-in for the crypto library with the lengths of version 1 (AES-128-GCM-SIV wraps,
  AES-256-XTS encrypts the data). Its AEAD appends a tag computed from key, IV and
  associated data and checks it on opening; it keeps nothing secret and only serves to
  instantiate the hypotheses on the crypto library.
\<close>

definition ref_tag :: "bytes \<Rightarrow> bytes \<Rightarrow> bytes \<Rightarrow> bytes" where
  "ref_tag key iv ad = Resize 16 (key @ iv @ ad)"

definition ref_crypto :: crypto where
  "ref_crypto = \<lparr>
     kTypeGuid = [0x5f, 0xe8, 0xf8, 0x00, 0xb3, 0x6d, 0x11, 0xe7,
                  0x80, 0x7a, 0x78, 0x63, 0x72, 0x79, 0x70, 0x74],
     AEAD_GetKeyLen = (\<lambda>a. if a = AEAD_kUninitialized then (ZX_ERR_INVALID_ARGS, 0) else (ZX_OK, 16)),
     AEAD_GetIVLen = (\<lambda>a. if a = AEAD_kUninitialized then (ZX_ERR_INVALID_ARGS, 0) else (ZX_OK, 12)),
     AEAD_GetTagLen = (\<lambda>a. if a = AEAD_kUninitialized then (ZX_ERR_INVALID_ARGS, 0) else (ZX_OK, 16)),
     Cipher_GetKeyLen = (\<lambda>c. if c = Cipher_kUninitialized then (ZX_ERR_INVALID_ARGS, 0) else (ZX_OK, 32)),
     Cipher_GetIVLen = (\<lambda>c. if c = Cipher_kUninitialized then (ZX_ERR_INVALID_ARGS, 0) else (ZX_OK, 16)),
     digest_GetDigestLen = (\<lambda>d. if d = digest_kUninitialized then (ZX_ERR_INVALID_ARGS, 0) else (ZX_OK, 32)),
     HKDF_Init = (\<lambda>d key salt. (ZX_OK, key @ salt)),
     HKDF_Derive = (\<lambda>prk lab n. (ZX_OK, Resize n (map of_char lab @ prk))),
     AEAD_InitSeal = (\<lambda>a key iv. ZX_OK),
     AEAD_Seal = (\<lambda>a key iv ad ptext. (ZX_OK, iv, ptext @ ref_tag key iv ad)),
     AEAD_InitOpen = (\<lambda>a key. ZX_OK),
     AEAD_Open = (\<lambda>a key iv ad ctext.
       if 16 \<le> length ctext \<and> drop (length ctext - 16) ctext = ref_tag key iv ad
       then (ZX_OK, take (length ctext - 16) ctext)
       else (ZX_ERR_IO_DATA_INTEGRITY, []))\<rparr>"

text \<open>
  Objects with a geometry but nothing else set: a block size of one page, and a block size
  too small for sixteen slots. \<open>unknown_version_block\<close> holds a block that begins with the
  type GUID and carries version 2.
\<close>

definition page_block :: superblock where
  "page_block = (Superblock False (raw_device 64))\<lparr>blk := \<lparr>block_count = 64, block_size = 4096\<rparr>\<rparr>"

definition small_block :: superblock where
  "small_block = (Superblock False (raw_device 64))\<lparr>blk := \<lparr>block_count = 64, block_size = 1024\<rparr>\<rparr>"

definition unknown_version_block :: superblock where
  "unknown_version_block = page_block\<lparr>block :=
      kTypeGuid ref_crypto @ replicate 16 7 @ [0, 0, 0, 2] @ replicate 4060 0\<rparr>"

text \<open>
  The objects \<open>Init\<close> builds on a raw device of 64 blocks and on the FVM partition of 8
  slices, and a raw device whose second metadata block cannot be written.
\<close>

definition raw_volume :: "world \<Rightarrow> superblock" where
  "raw_volume w = (Superblock False w)
       \<lparr>blk := \<lparr>block_count = 60, block_size = 4096\<rparr>,
        fvm := \<lparr>slice_size = 8192, vslice_count = 30\<rparr>,
        block := replicate 4096 0\<rparr>"

definition second_write_fails :: world where
  "second_write_fails = (raw_device 64)\<lparr>wr_status :=
      (\<lambda>off. if off = 4096 then (ZX_ERR_IO, 0) else (ZX_OK, 0))\<rparr>"

definition fvm_volume :: superblock where
  "fvm_volume = (Superblock False (fvm_device 8))
       \<lparr>blk := \<lparr>block_count = 24, block_size = 4096\<rparr>,
        fvm := \<lparr>slice_size = 16384, vslice_count = 6\<rparr>,
        has_fvm := True,
        block := replicate 4096 0\<rparr>"

text \<open>
  A block image that begins with the type GUID, an instance GUID of sixteen bytes 7 and the
  four bytes \<open>v\<close> of a version, the raw device of 64 blocks whose disk begins with a given
  block image, and the crypto library with a tag of 300 bytes, so that sixteen slots of
  version 1 need 5604 bytes.
\<close>

definition header_image :: "bytes \<Rightarrow> bytes" where
  "header_image v = kTypeGuid ref_crypto @ replicate 16 7 @ v @ replicate 4060 0"

definition device_holding :: "bytes \<Rightarrow> world" where
  "device_holding B = (raw_device 64)\<lparr>disk := (\<lambda>a. if a < length B then B ! a else 0)\<rparr>"

definition wide_tag_crypto :: crypto where
  "wide_tag_crypto = ref_crypto\<lparr>AEAD_GetTagLen := (\<lambda>a. (ZX_OK, 300))\<rparr>"

text \<open>The object of the raw device with a block image that is not on the disk yet.\<close>

definition dirty_volume :: superblock where
  "dirty_volume = (raw_volume (raw_device 64))\<lparr>block := replicate 4096 1\<rparr>"

subsection \<open>Notions used in the statements\<close>

text \<open>
  The slot length of version 1 as the crypto library gives it, and the statement that the
  library knows the six lengths of version 1.
\<close>

definition version_slot_len :: "crypto \<Rightarrow> size_t" where
  "version_slot_len cr =
     snd (Cipher_GetKeyLen cr kAES256_XTS) + snd (Cipher_GetIVLen cr kAES256_XTS) +
     snd (AEAD_GetTagLen cr kAES128_GCM_SIV)"

definition lengths_known :: "crypto \<Rightarrow> bool" where
  "lengths_known cr \<longleftrightarrow>
     fst (AEAD_GetKeyLen cr kAES128_GCM_SIV) = ZX_OK \<and>
     fst (AEAD_GetIVLen cr kAES128_GCM_SIV) = ZX_OK \<and>
     fst (AEAD_GetTagLen cr kAES128_GCM_SIV) = ZX_OK \<and>
     fst (Cipher_GetKeyLen cr kAES256_XTS) = ZX_OK \<and>
     fst (Cipher_GetIVLen cr kAES256_XTS) = ZX_OK \<and>
     fst (digest_GetDigestLen cr kSHA256) = ZX_OK"

text \<open>
  \<open>holds d l B\<close>: the disk \<open>d\<close> has the block \<open>B\<close> at byte offset \<open>l\<close>. \<open>fault_free w ls\<close>: the
  device reads and writes each location of \<open>ls\<close> without error. \<open>same_device s s'\<close>: the
  two objects have the same block buffer, geometry, iterator offset and device.
\<close>

definition holds :: "(nat \<Rightarrow> byte) \<Rightarrow> 64 word \<Rightarrow> bytes \<Rightarrow> bool" where
  "holds d l B \<longleftrightarrow> read_bytes d (unat l) (length B) = B"

definition fault_free :: "world \<Rightarrow> 64 word list \<Rightarrow> bool" where
  "fault_free w ls \<longleftrightarrow>
     list_all (\<lambda>l. fst (rd_status w l) = ZX_OK \<and> fst (wr_status w l) = ZX_OK) ls"

definition same_device :: "superblock \<Rightarrow> superblock \<Rightarrow> bool" where
  "same_device s s' \<longleftrightarrow>
     block s' = block s \<and> fvm s' = fvm s \<and> offset s' = offset s \<and> fd s' = fd s \<and>
     blk s' = blk s \<and> dev s' = dev s"






section \<open>Properties\<close>

subsection \<open>Words\<close>

lemma unat_lt32: "unat (x::32 word) < 4294967296"
  using unsigned_less[of x, where 'a=nat] by simp

lemma unat_lt64: "unat (x::64 word) < 18446744073709551616"
  using unsigned_less[of x, where 'a=nat] by simp

lemma unat_ucast_32_64: "unat (ucast (b::32 word) :: 64 word) = unat b"
proof -
  have "unat b < 2 ^ 64" using unat_lt32[of b] by simp
  then show ?thesis by (simp add: unsigned_ucast_eq take_bit_nat_eq_self)
qed

lemma reserved_size_unat:
  "unat ((ucast (b :: 32 word) :: 64 word) * kReservedPairs) = 2 * unat b"
proof -
  have "unat (ucast b :: 64 word) * unat (2 :: 64 word) < 2 ^ 64"
    using unat_lt32[of b] by (simp add: unat_ucast_32_64)
  then show ?thesis
    by (simp add: kReservedPairs_def unat_mult_lem[THEN iffD1] unat_ucast_32_64)
qed

lemma unat_of_nat64: "n < 2 ^ 64 \<Longrightarrow> unat (of_nat n :: 64 word) = n"
  by (simp add: unat_of_nat)

subsection \<open>The iterator\<close>

lemma Next_unat:
  assumes ss: "slice_size (fvm s) \<noteq> 0"
    and lt: "unat (offset s) + length (block s) < 2 ^ 64"
  shows "Next s =
    (if (unat (offset s) + length (block s)) mod unat (slice_size (fvm s)) \<noteq> 0
       then Some (ZX_ERR_NEXT, s\<lparr>offset := of_nat (unat (offset s) + length (block s))\<rparr>)
     else if unat (offset s) + length (block s) \<le> unat (slice_size (fvm s))
       then Some (ZX_ERR_NEXT, s\<lparr>offset := (vslice_count (fvm s) + 1) * slice_size (fvm s)\<rparr>)
     else Some (ZX_ERR_STOP, s\<lparr>offset := of_nat (unat (offset s) + length (block s))\<rparr>))"
proof -
  let ?o = "unat (offset s) + length (block s)"
  have o: "offset s + of_nat (length (block s)) = (of_nat ?o :: 64 word)" by simp
  have u: "unat (of_nat ?o :: 64 word) = ?o" using lt by (rule unat_of_nat64)
  have pos: "0 < unat (slice_size (fvm s))" using ss by (simp add: unat_gt_0)
  have "unat (of_nat ?o mod slice_size (fvm s)) = ?o mod unat (slice_size (fvm s))"
    unfolding unat_mod u ..
  then have m: "(of_nat ?o mod slice_size (fvm s) \<noteq> 0) = (?o mod unat (slice_size (fvm s)) \<noteq> 0)"
    unfolding unat_eq_0[symmetric] by simp
  have l: "of_nat ?o mod slice_size (fvm s) < slice_size (fvm s)"
    unfolding word_less_nat_alt unat_mod using pos by simp
  have le: "(of_nat ?o \<le> slice_size (fvm s)) = (?o \<le> unat (slice_size (fvm s)))"
    unfolding word_le_nat_alt u ..
  show ?thesis
    unfolding Next_def Let_def using ss
    by (simp add: o m l le del: of_nat_add)
qed


lemma visit_offset [simp]: "visit body fin ls (s\<lparr>offset := x\<rparr>) = visit body fin ls s"
  by (cases ls) simp_all

lemma iterate_stop: "rc \<noteq> ZX_ERR_NEXT \<Longrightarrow> 0 < fuel \<Longrightarrow> iterate fuel body (rc, s) = Some (None, s)"
  by (cases fuel) simp_all

lemma slice_arith:
  assumes "0 < bs" "ss mod bs = 0" "k < ss div bs"
  shows "k * bs + bs \<le> ss" "0 < k * bs + bs"
    "(Suc k < ss div bs) = (k * bs + bs < ss)"
proof -
  have e: "ss div bs * bs = ss" using assms(2) by auto
  have "Suc k * bs \<le> ss div bs * bs" using assms(3) by (intro mult_le_mono1) simp
  then show le: "k * bs + bs \<le> ss" using e by simp
  show "0 < k * bs + bs" using assms(1) by simp
  show "(Suc k < ss div bs) = (k * bs + bs < ss)"
  proof
    assume "Suc k < ss div bs"
    then have "Suc (Suc k) * bs \<le> ss div bs * bs" by (intro mult_le_mono1) simp
    then show "k * bs + bs < ss" using e assms(1) by simp
  next
    assume a: "k * bs + bs < ss"
    show "Suc k < ss div bs"
    proof (rule ccontr)
      assume "\<not> Suc k < ss div bs"
      then have "ss div bs * bs \<le> Suc k * bs" by (intro mult_le_mono1) simp
      then show False using a e by simp
    qed
  qed
qed

lemma iterate_last_slice:
  assumes kg: "keeps_geometry bs body"
    and bs: "0 < bs" and ss: "0 < ss" and dv: "ss mod bs = 0"
    and bound: "(vc + 1) * ss + ss < 2 ^ 64"
  shows "\<lbrakk>d = ss div bs - k; k < ss div bs; ss div bs - k < fuel; length (block s) = bs;
     unat (slice_size (fvm s)) = ss; unat (vslice_count (fvm s)) = vc;
     offset s = of_nat ((vc + 1) * ss + k * bs)\<rbrakk>
     \<Longrightarrow> iterate fuel body (ZX_ERR_NEXT, s) =
         visit body (of_nat ((vc + 1) * ss + ss))
           (map (\<lambda>j. of_nat ((vc + 1) * ss + j * bs)) [k..<ss div bs]) s"
proof -
  define n where "n = ss div bs"
  define ls where "ls = (vc + 1) * ss"
  define fin where "fin = (of_nat (ls + ss) :: 64 word)"
  define f where "f = (\<lambda>j. of_nat (ls + j * bs) :: 64 word)"
  have main: "\<lbrakk>d = n - k; k < n; n - k < fuel; length (block s) = bs;
     unat (slice_size (fvm s)) = ss; unat (vslice_count (fvm s)) = vc; offset s = f k\<rbrakk>
     \<Longrightarrow> iterate fuel body (ZX_ERR_NEXT, s) = visit body fin (map f [k..<n]) s"
  proof (induction d arbitrary: k s fuel)
    case 0
    then show ?case by simp
  next
    case (Suc d)
    obtain fuel' where fuel: "fuel = Suc fuel'" using Suc.prems(3) by (cases fuel) auto
    have upt: "[k..<n] = k # [Suc k..<n]" using Suc.prems(2) by (simp add: upt_conv_Cons)
    have self: "s\<lparr>offset := f k\<rparr> = s" using Suc.prems(7) by simp
    note ar = slice_arith[OF bs dv Suc.prems(2)[unfolded n_def]]
    show ?case
    proof (cases "body s")
      case None
      then show ?thesis by (simp add: fuel upt self)
    next
      case (Some p)
      obtain r s' where p: "p = (r, s')" by (cases p)
      show ?thesis
      proof (cases r)
        case (Some x)
        then show ?thesis using \<open>body s = Some p\<close> p by (simp add: fuel upt self)
      next
        case None
        have b: "body s = Some (None, s')" using \<open>body s = Some p\<close> p None by simp
        from kg Suc.prems(4) b
        have "length (block s') = bs \<and> fvm s' = fvm s \<and> offset s' = offset s"
          unfolding keeps_geometry_def by blast
        then have g: "length (block s') = bs" "fvm s' = fvm s" "offset s' = f k"
          using Suc.prems(7) by simp_all
        have lt: "ls + k * bs + bs < 2 ^ 64" using ar(1) bound unfolding ls_def by simp
        then have uo: "unat (offset s') = ls + k * bs"
          unfolding g(3) f_def by (intro unat_of_nat64) simp
        have ssn: "slice_size (fvm s') \<noteq> 0" using ss Suc.prems(5) g(2) by auto
        have md: "(ls + k * bs + bs) mod ss = (k * bs + bs) mod ss"
          unfolding ls_def by (simp add: add.assoc)
        have gt: "\<not> ls + k * bs + bs \<le> ss" using ss ar(2) unfolding ls_def by simp
        have fS: "of_nat (ls + k * bs + bs) = f (Suc k)" unfolding f_def by (simp add: add.assoc)
        have nx: "Next s' =
          (if (k * bs + bs) mod ss \<noteq> 0
             then Some (ZX_ERR_NEXT, s'\<lparr>offset := f (Suc k)\<rparr>)
           else Some (ZX_ERR_STOP, s'\<lparr>offset := of_nat (ls + k * bs + bs)\<rparr>))"
        proof -
          have "unat (offset s') + length (block s') < 2 ^ 64" using lt uo g(1) by simp
          from Next_unat[OF ssn this] show ?thesis
            unfolding uo g(1) g(2) Suc.prems(5) md fS using gt by simp
        qed
        show ?thesis
        proof (cases "Suc k < n")
          case True
          then have "k * bs + bs < ss" using ar(3) unfolding n_def by simp
          then have "(k * bs + bs) mod ss \<noteq> 0" using ar(2) by simp
          then have nx': "Next s' = Some (ZX_ERR_NEXT, s'\<lparr>offset := f (Suc k)\<rparr>)"
            using nx by simp
          have ih: "iterate fuel' body (ZX_ERR_NEXT, s'\<lparr>offset := f (Suc k)\<rparr>) =
              visit body fin (map f [Suc k..<n]) (s'\<lparr>offset := f (Suc k)\<rparr>)"
            using Suc.prems True g fuel
            by (intro Suc.IH) auto
          show ?thesis using b nx' ih by (simp add: fuel upt self)
        next
          case False
          then have kn: "Suc k = n" using Suc.prems(2) by simp
          then have e: "k * bs + bs = ss" using ar(1) ar(3) unfolding n_def by auto
          then have nx': "Next s' = Some (ZX_ERR_STOP, s'\<lparr>offset := fin\<rparr>)"
            using nx unfolding fin_def by (simp add: add.assoc)
          have f0: "0 < fuel'" using Suc.prems(3) fuel kn by simp
          have e: "[Suc k..<n] = []" using kn by simp
          show ?thesis using b nx' f0 by (simp add: fuel upt self e iterate_stop)
        qed
      qed
    qed
  qed
  show "\<lbrakk>d = ss div bs - k; k < ss div bs; ss div bs - k < fuel; length (block s) = bs;
     unat (slice_size (fvm s)) = ss; unat (vslice_count (fvm s)) = vc;
     offset s = of_nat ((vc + 1) * ss + k * bs)\<rbrakk>
     \<Longrightarrow> iterate fuel body (ZX_ERR_NEXT, s) =
         visit body (of_nat ((vc + 1) * ss + ss))
           (map (\<lambda>j. of_nat ((vc + 1) * ss + j * bs)) [k..<ss div bs]) s"
    using main unfolding n_def ls_def fin_def f_def by blast
qed


lemma iterate_first_slice:
  assumes kg: "keeps_geometry bs body"
    and bs: "0 < bs" and ss: "0 < ss" and dv: "ss mod bs = 0"
    and bound: "(vc + 1) * ss + ss < 2 ^ 64"
  shows "\<lbrakk>d = ss div bs - k; k < ss div bs; 2 * (ss div bs) - k < fuel; length (block s) = bs;
     unat (slice_size (fvm s)) = ss; unat (vslice_count (fvm s)) = vc;
     offset s = of_nat (k * bs)\<rbrakk>
     \<Longrightarrow> iterate fuel body (ZX_ERR_NEXT, s) =
         visit body (of_nat ((vc + 1) * ss + ss))
           (map (\<lambda>j. of_nat (j * bs)) [k..<ss div bs] @
            map (\<lambda>j. of_nat ((vc + 1) * ss + j * bs)) [0..<ss div bs]) s"
proof -
  define n where "n = ss div bs"
  define ls where "ls = (vc + 1) * ss"
  define fin where "fin = (of_nat (ls + ss) :: 64 word)"
  define f where "f = (\<lambda>j. of_nat (ls + j * bs) :: 64 word)"
  define g where "g = (\<lambda>j. of_nat (j * bs) :: 64 word)"
  have last: "\<lbrakk>n < fuel; length (block s) = bs; unat (slice_size (fvm s)) = ss;
      unat (vslice_count (fvm s)) = vc; offset s = f 0\<rbrakk>
     \<Longrightarrow> iterate fuel body (ZX_ERR_NEXT, s) = visit body fin (map f [0..<n]) s" for fuel s
    using iterate_last_slice[OF kg bs ss dv bound, of "ss div bs" 0 fuel s] bs ss dv
    unfolding n_def ls_def fin_def f_def by (auto simp: mod_eq_0_iff_dvd dvd_imp_le)
  have main: "\<lbrakk>d = n - k; k < n; 2 * n - k < fuel; length (block s) = bs;
     unat (slice_size (fvm s)) = ss; unat (vslice_count (fvm s)) = vc; offset s = g k\<rbrakk>
     \<Longrightarrow> iterate fuel body (ZX_ERR_NEXT, s) = visit body fin (map g [k..<n] @ map f [0..<n]) s"
  proof (induction d arbitrary: k s fuel)
    case 0
    then show ?case by simp
  next
    case (Suc d)
    obtain fuel' where fuel: "fuel = Suc fuel'" using Suc.prems(3) by (cases fuel) auto
    have upt: "[k..<n] = k # [Suc k..<n]" using Suc.prems(2) by (simp add: upt_conv_Cons)
    have self: "s\<lparr>offset := g k\<rparr> = s" using Suc.prems(7) by simp
    note ar = slice_arith[OF bs dv Suc.prems(2)[unfolded n_def]]
    show ?case
    proof (cases "body s")
      case None
      then show ?thesis by (simp add: fuel upt self)
    next
      case (Some p)
      obtain r s' where p: "p = (r, s')" by (cases p)
      show ?thesis
      proof (cases r)
        case (Some x)
        then show ?thesis using \<open>body s = Some p\<close> p by (simp add: fuel upt self)
      next
        case None
        have b: "body s = Some (None, s')" using \<open>body s = Some p\<close> p None by simp
        from kg Suc.prems(4) b
        have "length (block s') = bs \<and> fvm s' = fvm s \<and> offset s' = offset s"
          unfolding keeps_geometry_def by blast
        then have ge: "length (block s') = bs" "fvm s' = fvm s" "offset s' = g k"
          using Suc.prems(7) by simp_all
        have lt: "k * bs + bs < 2 ^ 64" using ar(1) bound by simp
        then have uo: "unat (offset s') = k * bs"
          unfolding ge(3) g_def by (intro unat_of_nat64) simp
        have ssn: "slice_size (fvm s') \<noteq> 0" using ss Suc.prems(5) ge(2) by auto
        have gS: "of_nat (k * bs + bs) = g (Suc k)" unfolding g_def by simp
        have jump: "(vslice_count (fvm s') + 1) * slice_size (fvm s') = f 0"
          unfolding f_def ls_def ge(2) Suc.prems(5)[symmetric] Suc.prems(6)[symmetric]
          by (simp add: algebra_simps)
        have nx: "Next s' =
          (if (k * bs + bs) mod ss \<noteq> 0
             then Some (ZX_ERR_NEXT, s'\<lparr>offset := g (Suc k)\<rparr>)
           else Some (ZX_ERR_NEXT, s'\<lparr>offset := f 0\<rparr>))"
        proof -
          have "unat (offset s') + length (block s') < 2 ^ 64" using lt uo ge(1) by simp
          from Next_unat[OF ssn this] show ?thesis
            unfolding uo ge(1) jump gS unfolding ge(2) Suc.prems(5) using ar(1) by simp
        qed
        show ?thesis
        proof (cases "Suc k < n")
          case True
          then have "k * bs + bs < ss" using ar(3) unfolding n_def by simp
          then have "(k * bs + bs) mod ss \<noteq> 0" using ar(2) by simp
          then have nx': "Next s' = Some (ZX_ERR_NEXT, s'\<lparr>offset := g (Suc k)\<rparr>)"
            using nx by simp
          have ih: "iterate fuel' body (ZX_ERR_NEXT, s'\<lparr>offset := g (Suc k)\<rparr>) =
              visit body fin (map g [Suc k..<n] @ map f [0..<n]) (s'\<lparr>offset := g (Suc k)\<rparr>)"
            using Suc.prems True ge fuel
            by (intro Suc.IH) auto
          show ?thesis using b nx' ih by (simp add: fuel upt self)
        next
          case False
          then have kn: "Suc k = n" using Suc.prems(2) by simp
          then have e: "k * bs + bs = ss" using ar(1) ar(3) unfolding n_def by auto
          then have nx': "Next s' = Some (ZX_ERR_NEXT, s'\<lparr>offset := f 0\<rparr>)"
            using nx by simp
          have f0: "n < fuel'" using Suc.prems(3) fuel kn by simp
          have e: "[Suc k..<n] = []" using kn by simp
          have "iterate fuel' body (ZX_ERR_NEXT, s'\<lparr>offset := f 0\<rparr>) =
              visit body fin (map f [0..<n]) (s'\<lparr>offset := f 0\<rparr>)"
            using f0 ge Suc.prems by (intro last) auto
          then show ?thesis using b nx' by (simp add: fuel upt self e)
        qed
      qed
    qed
  qed
  show "\<lbrakk>d = ss div bs - k; k < ss div bs; 2 * (ss div bs) - k < fuel; length (block s) = bs;
     unat (slice_size (fvm s)) = ss; unat (vslice_count (fvm s)) = vc;
     offset s = of_nat (k * bs)\<rbrakk>
     \<Longrightarrow> iterate fuel body (ZX_ERR_NEXT, s) =
         visit body (of_nat ((vc + 1) * ss + ss))
           (map (\<lambda>j. of_nat (j * bs)) [k..<ss div bs] @
            map (\<lambda>j. of_nat ((vc + 1) * ss + j * bs)) [0..<ss div bs]) s"
    using main unfolding n_def ls_def fin_def f_def g_def by blast
qed

lemma geom_ok_blocks: "geom_ok s \<Longrightarrow> 0 < blocks_per_slice s"
  unfolding geom_ok_def blocks_per_slice_def
  by (auto simp: mod_eq_0_iff_dvd dvd_imp_le div_greater_zero_iff)

lemma iterate_locations:
  assumes g: "geom_ok s" and kg: "keeps_geometry (length (block s)) body" and fuel: "2 * blocks_per_slice s < fuel"
  shows "iterate fuel body (Begin s) = visit body (end_offset s) (locations s) s"
proof -
  let ?bs = "length (block s)" and ?ss = "unat (slice_size (fvm s))"
    and ?vc = "unat (vslice_count (fvm s))"
  have a: "0 < ?bs" "0 < ?ss" "?ss mod ?bs = 0" "(?vc + 1) * ?ss + ?ss < 2 ^ 64"
    using g unfolding geom_ok_def last_slice_def by auto
  have n: "0 < ?ss div ?bs" using geom_ok_blocks[OF g] unfolding blocks_per_slice_def .
  have b: "Begin s = (ZX_ERR_NEXT, s\<lparr>offset := 0\<rparr>)"
    using a(2) unfolding Begin_def by auto
  have "iterate fuel body (ZX_ERR_NEXT, s\<lparr>offset := 0\<rparr>) =
        visit body (of_nat ((?vc + 1) * ?ss + ?ss))
           (map (\<lambda>j. of_nat (j * ?bs)) [0..<?ss div ?bs] @
            map (\<lambda>j. of_nat ((?vc + 1) * ?ss + j * ?bs)) [0..<?ss div ?bs]) (s\<lparr>offset := 0\<rparr>)"
    using n fuel unfolding blocks_per_slice_def
    by (intro iterate_first_slice[OF kg a, of "?ss div ?bs" 0]) auto
  then show ?thesis
    unfolding b locations_def end_offset_def last_slice_def blocks_per_slice_def by simp
qed

lemma offsets_stop: "rc \<noteq> ZX_ERR_NEXT \<Longrightarrow> 0 < fuel \<Longrightarrow> offsets fuel (rc, s) = Some []"
  by (cases fuel) simp_all

lemma offsets_last_slice:
  assumes bs: "0 < bs" and ss: "0 < ss" and dv: "ss mod bs = 0"
    and bound: "(vc + 1) * ss + ss < 2 ^ 64"
  shows "\<lbrakk>d = ss div bs - k; k < ss div bs; ss div bs - k < fuel; length (block s) = bs;
     unat (slice_size (fvm s)) = ss; unat (vslice_count (fvm s)) = vc;
     offset s = of_nat ((vc + 1) * ss + k * bs)\<rbrakk>
     \<Longrightarrow> offsets fuel (ZX_ERR_NEXT, s) =
         Some (map (\<lambda>j. of_nat ((vc + 1) * ss + j * bs)) [k..<ss div bs])"
proof -
  define n where "n = ss div bs"
  define ls where "ls = (vc + 1) * ss"
  define f where "f = (\<lambda>j. of_nat (ls + j * bs) :: 64 word)"
  have main: "\<lbrakk>d = n - k; k < n; n - k < fuel; length (block s) = bs;
     unat (slice_size (fvm s)) = ss; unat (vslice_count (fvm s)) = vc; offset s = f k\<rbrakk>
     \<Longrightarrow> offsets fuel (ZX_ERR_NEXT, s) = Some (map f [k..<n])"
  proof (induction d arbitrary: k s fuel)
    case 0
    then show ?case by simp
  next
    case (Suc d)
    obtain fuel' where fuel: "fuel = Suc fuel'" using Suc.prems(3) by (cases fuel) auto
    have upt: "[k..<n] = k # [Suc k..<n]" using Suc.prems(2) by (simp add: upt_conv_Cons)
    note ar = slice_arith[OF bs dv Suc.prems(2)[unfolded n_def]]
    have lt: "ls + k * bs + bs < 2 ^ 64" using ar(1) bound unfolding ls_def by simp
    then have uo: "unat (offset s) = ls + k * bs"
      unfolding Suc.prems(7) f_def by (intro unat_of_nat64) simp
    have ssn: "slice_size (fvm s) \<noteq> 0" using ss Suc.prems(5) by auto
    have md: "(ls + k * bs + bs) mod ss = (k * bs + bs) mod ss"
      unfolding ls_def by (simp add: add.assoc)
    have gt: "\<not> ls + k * bs + bs \<le> ss" using ss ar(2) unfolding ls_def by simp
    have fS: "of_nat (ls + k * bs + bs) = f (Suc k)" unfolding f_def by (simp add: add.assoc)
    have nx: "Next s =
      (if (k * bs + bs) mod ss \<noteq> 0
         then Some (ZX_ERR_NEXT, s\<lparr>offset := f (Suc k)\<rparr>)
       else Some (ZX_ERR_STOP, s\<lparr>offset := of_nat (ls + k * bs + bs)\<rparr>))"
    proof -
      have "unat (offset s) + length (block s) < 2 ^ 64" using lt uo Suc.prems(4) by simp
      from Next_unat[OF ssn this] show ?thesis
        unfolding uo Suc.prems(4) Suc.prems(5) md fS using gt by simp
    qed
    show ?case
    proof (cases "Suc k < n")
      case True
      then have "k * bs + bs < ss" using ar(3) unfolding n_def by simp
      then have "(k * bs + bs) mod ss \<noteq> 0" using ar(2) by simp
      then have nx': "Next s = Some (ZX_ERR_NEXT, s\<lparr>offset := f (Suc k)\<rparr>)"
        using nx by simp
      have ih: "offsets fuel' (ZX_ERR_NEXT, s\<lparr>offset := f (Suc k)\<rparr>) = Some (map f [Suc k..<n])"
        using Suc.prems True fuel
        by (intro Suc.IH) auto
      show ?thesis using nx' ih Suc.prems(7) by (simp add: fuel upt)
    next
      case False
      then have kn: "Suc k = n" using Suc.prems(2) by simp
      then have e: "k * bs + bs = ss" using ar(1) ar(3) unfolding n_def by auto
      then have nx': "Next s = Some (ZX_ERR_STOP, s\<lparr>offset := of_nat (ls + k * bs + bs)\<rparr>)"
        using nx by simp
      have f0: "0 < fuel'" using Suc.prems(3) fuel kn by simp
      have e: "[Suc k..<n] = []" using kn by simp
      show ?thesis using nx' f0 Suc.prems(7) by (simp add: fuel upt e offsets_stop)
    qed
  qed
  show "\<lbrakk>d = ss div bs - k; k < ss div bs; ss div bs - k < fuel; length (block s) = bs;
     unat (slice_size (fvm s)) = ss; unat (vslice_count (fvm s)) = vc;
     offset s = of_nat ((vc + 1) * ss + k * bs)\<rbrakk>
     \<Longrightarrow> offsets fuel (ZX_ERR_NEXT, s) =
         Some (map (\<lambda>j. of_nat ((vc + 1) * ss + j * bs)) [k..<ss div bs])"
    using main unfolding n_def ls_def f_def by blast
qed

lemma offsets_first_slice:
  assumes bs: "0 < bs" and ss: "0 < ss" and dv: "ss mod bs = 0"
    and bound: "(vc + 1) * ss + ss < 2 ^ 64"
  shows "\<lbrakk>d = ss div bs - k; k < ss div bs; 2 * (ss div bs) - k < fuel; length (block s) = bs;
     unat (slice_size (fvm s)) = ss; unat (vslice_count (fvm s)) = vc;
     offset s = of_nat (k * bs)\<rbrakk>
     \<Longrightarrow> offsets fuel (ZX_ERR_NEXT, s) =
         Some (map (\<lambda>j. of_nat (j * bs)) [k..<ss div bs] @
               map (\<lambda>j. of_nat ((vc + 1) * ss + j * bs)) [0..<ss div bs])"
proof -
  define n where "n = ss div bs"
  define ls where "ls = (vc + 1) * ss"
  define f where "f = (\<lambda>j. of_nat (ls + j * bs) :: 64 word)"
  define g where "g = (\<lambda>j. of_nat (j * bs) :: 64 word)"
  have last: "\<lbrakk>n < fuel; length (block s) = bs; unat (slice_size (fvm s)) = ss;
      unat (vslice_count (fvm s)) = vc; offset s = f 0\<rbrakk>
     \<Longrightarrow> offsets fuel (ZX_ERR_NEXT, s) = Some (map f [0..<n])" for fuel s
    using offsets_last_slice[OF bs ss dv bound, of "ss div bs" 0 fuel s] bs ss dv
    unfolding n_def ls_def f_def by (auto simp: mod_eq_0_iff_dvd dvd_imp_le)
  have main: "\<lbrakk>d = n - k; k < n; 2 * n - k < fuel; length (block s) = bs;
     unat (slice_size (fvm s)) = ss; unat (vslice_count (fvm s)) = vc; offset s = g k\<rbrakk>
     \<Longrightarrow> offsets fuel (ZX_ERR_NEXT, s) = Some (map g [k..<n] @ map f [0..<n])"
  proof (induction d arbitrary: k s fuel)
    case 0
    then show ?case by simp
  next
    case (Suc d)
    obtain fuel' where fuel: "fuel = Suc fuel'" using Suc.prems(3) by (cases fuel) auto
    have upt: "[k..<n] = k # [Suc k..<n]" using Suc.prems(2) by (simp add: upt_conv_Cons)
    note ar = slice_arith[OF bs dv Suc.prems(2)[unfolded n_def]]
    have lt: "k * bs + bs < 2 ^ 64" using ar(1) bound by simp
    then have uo: "unat (offset s) = k * bs"
      unfolding Suc.prems(7) g_def by (intro unat_of_nat64) simp
    have ssn: "slice_size (fvm s) \<noteq> 0" using ss Suc.prems(5) by auto
    have gS: "of_nat (k * bs + bs) = g (Suc k)" unfolding g_def by simp
    have jump: "(vslice_count (fvm s) + 1) * slice_size (fvm s) = f 0"
      unfolding f_def ls_def Suc.prems(5)[symmetric] Suc.prems(6)[symmetric]
      by (simp add: algebra_simps)
    have nx: "Next s =
      (if (k * bs + bs) mod ss \<noteq> 0
         then Some (ZX_ERR_NEXT, s\<lparr>offset := g (Suc k)\<rparr>)
       else Some (ZX_ERR_NEXT, s\<lparr>offset := f 0\<rparr>))"
    proof -
      have "unat (offset s) + length (block s) < 2 ^ 64" using lt uo Suc.prems(4) by simp
      from Next_unat[OF ssn this] show ?thesis
        unfolding uo Suc.prems(4) jump gS unfolding Suc.prems(5) using ar(1) by simp
    qed
    show ?case
    proof (cases "Suc k < n")
      case True
      then have "k * bs + bs < ss" using ar(3) unfolding n_def by simp
      then have "(k * bs + bs) mod ss \<noteq> 0" using ar(2) by simp
      then have nx': "Next s = Some (ZX_ERR_NEXT, s\<lparr>offset := g (Suc k)\<rparr>)"
        using nx by simp
      have ih: "offsets fuel' (ZX_ERR_NEXT, s\<lparr>offset := g (Suc k)\<rparr>) =
          Some (map g [Suc k..<n] @ map f [0..<n])"
        using Suc.prems True fuel
        by (intro Suc.IH) auto
      show ?thesis using nx' ih Suc.prems(7) by (simp add: fuel upt)
    next
      case False
      then have kn: "Suc k = n" using Suc.prems(2) by simp
      then have e: "k * bs + bs = ss" using ar(1) ar(3) unfolding n_def by auto
      then have nx': "Next s = Some (ZX_ERR_NEXT, s\<lparr>offset := f 0\<rparr>)"
        using nx by simp
      have f0: "n < fuel'" using Suc.prems(3) fuel kn by simp
      have e: "[Suc k..<n] = []" using kn by simp
      have "offsets fuel' (ZX_ERR_NEXT, s\<lparr>offset := f 0\<rparr>) = Some (map f [0..<n])"
        using f0 Suc.prems by (intro last) auto
      then show ?thesis using nx' Suc.prems(7) by (simp add: fuel upt e)
    qed
  qed
  show "\<lbrakk>d = ss div bs - k; k < ss div bs; 2 * (ss div bs) - k < fuel; length (block s) = bs;
     unat (slice_size (fvm s)) = ss; unat (vslice_count (fvm s)) = vc;
     offset s = of_nat (k * bs)\<rbrakk>
     \<Longrightarrow> offsets fuel (ZX_ERR_NEXT, s) =
         Some (map (\<lambda>j. of_nat (j * bs)) [k..<ss div bs] @
               map (\<lambda>j. of_nat ((vc + 1) * ss + j * bs)) [0..<ss div bs])"
    using main unfolding n_def ls_def f_def g_def by blast
qed

lemma offsets_locations:
  assumes g: "geom_ok s" and fuel: "2 * blocks_per_slice s < fuel"
  shows "offsets fuel (Begin s) = Some (locations s)"
proof -
  let ?bs = "length (block s)" and ?ss = "unat (slice_size (fvm s))"
    and ?vc = "unat (vslice_count (fvm s))"
  have a: "0 < ?bs" "0 < ?ss" "?ss mod ?bs = 0" "(?vc + 1) * ?ss + ?ss < 2 ^ 64"
    using g unfolding geom_ok_def last_slice_def by auto
  have n: "0 < ?ss div ?bs" using geom_ok_blocks[OF g] unfolding blocks_per_slice_def .
  have b: "Begin s = (ZX_ERR_NEXT, s\<lparr>offset := 0\<rparr>)"
    using a(2) unfolding Begin_def by auto
  have "offsets fuel (ZX_ERR_NEXT, s\<lparr>offset := 0\<rparr>) =
        Some (map (\<lambda>j. of_nat (j * ?bs)) [0..<?ss div ?bs] @
            map (\<lambda>j. of_nat ((?vc + 1) * ?ss + j * ?bs)) [0..<?ss div ?bs])"
    using n fuel unfolding blocks_per_slice_def
    by (intro offsets_first_slice[OF a, of "?ss div ?bs" 0]) auto
  then show ?thesis
    unfolding b locations_def last_slice_def blocks_per_slice_def by simp
qed

subsection \<open>Init\<close>

lemma fd_Reset [simp]: "fd (Reset s) = fd s" "dev (Reset s) = dev s" "header (Reset s) = header s"
  by (simp_all add: Reset_def)

lemma Reset_idem [simp]: "Reset (Reset s) = Reset s"
  by (simp add: Reset_def)

lemma Init_body_cancelled:
  "Init_body s = Some (rc, c, s') \<Longrightarrow> c = (rc = ZX_OK)"
  unfolding Init_body_def Let_def
  by (auto split: prod.splits if_splits)

lemma Init_body_Reset:
  "Init_body s = Some (rc, c, s') \<Longrightarrow> Reset s' = Reset s"
  unfolding Init_body_def Let_def
  by (auto split: prod.splits if_splits simp: Reset_def)

lemma Init_body_ok:
  assumes "Init_body s = Some (ZX_OK, c, s')"
  shows "length (block s') = unat (block_size (blk s'))"
    and "PAGE_SIZE \<le> block_size (blk s')"
    and "2 * unat (block_size (blk s')) \<le> unat (slice_size (fvm s'))"
    and "block s' = Resize (unat (block_size (blk s'))) (block s)"
  using assms unfolding Init_body_def Let_def
  by (auto split: prod.splits if_splits simp: Resize_def word_less_nat_alt word_le_nat_alt reserved_size_unat)

lemma Init_raw3:
  "Init (Superblock False (raw_device 3)) =
     Some (ZX_ERR_NO_SPACE, Reset (Superblock False (raw_device 3)))"
  by (simp add: Init_def Init_body_def Superblock_def Reset_def raw_device_def PAGE_SIZE_def
      kReservedPairs_def Let_def)

lemma Init_raw64:
  "Init (Superblock False (raw_device 64)) =
     Some (ZX_OK, (Superblock False (raw_device 64))
       \<lparr>blk := \<lparr>block_count = 60, block_size = 4096\<rparr>,
        fvm := \<lparr>slice_size = 8192, vslice_count = 30\<rparr>,
        block := replicate 4096 0\<rparr>)"
  by (simp add: Init_def Init_body_def Superblock_def Reset_def raw_device_def PAGE_SIZE_def
      kReservedPairs_def Let_def Resize_def)

text \<open>
  Claim C8. When \<open>Init\<close> returns a status other than \<open>ZX_OK\<close>, whatever step failed, the
  object it leaves is \<open>Reset\<close> of the object it was called on: block information and FVM
  geometry zeroed, no block buffer, no instance GUID, no wrap or data key or IV, the three
  algorithms uninitialized, the slot length 0, the iterator offset at \<^verbatim>\<open>UINT64_MAX\<close>. When it
  returns \<open>ZX_OK\<close> the body had cancelled the cleanup: the object is the one the body
  built, with a block buffer and a slice size.
\<close>

theorem Init_failure_resets:
  assumes "Init s = Some (rc, s')"
  shows "(rc \<noteq> ZX_OK \<longrightarrow>
            s' = Reset s \<and>
            blk s' = \<lparr>block_count = 0, block_size = 0\<rparr> \<and>
            fvm s' = \<lparr>slice_size = 0, vslice_count = 0\<rparr> \<and> \<not> has_fvm s' \<and>
            block s' = [] \<and> offset s' = - 1 \<and> guid s' = [] \<and>
            wrap_key s' = [] \<and> wrap_iv s' = [] \<and> data_key s' = [] \<and> data_iv s' = [] \<and>
            aead s' = AEAD_kUninitialized \<and> cipher s' = Cipher_kUninitialized \<and>
            digest s' = digest_kUninitialized \<and> slot_len s' = 0) \<and>
         (rc = ZX_OK \<longrightarrow>
            Init_body (Reset s) = Some (ZX_OK, True, s') \<and>
            block s' \<noteq> [] \<and> slice_size (fvm s') \<noteq> 0)"
proof (intro conjI impI)
  obtain c t where b: "Init_body (Reset s) = Some (rc, c, t)"
    and s': "s' = (if c then t else Reset t)"
    using assms unfolding Init_def by (auto split: option.splits)
  have c: "c = (rc = ZX_OK)" using Init_body_cancelled[OF b] .
  have r: "Reset t = Reset s" using Init_body_Reset[OF b] by simp
  { assume "rc \<noteq> ZX_OK"
    with c s' r show "s' = Reset s" by simp
    then show "blk s' = \<lparr>block_count = 0, block_size = 0\<rparr>"
      "fvm s' = \<lparr>slice_size = 0, vslice_count = 0\<rparr>" "\<not> has_fvm s'"
      "block s' = []" "offset s' = - 1" "guid s' = []"
      "wrap_key s' = []" "wrap_iv s' = []" "data_key s' = []" "data_iv s' = []"
      "aead s' = AEAD_kUninitialized" "cipher s' = Cipher_kUninitialized"
      "digest s' = digest_kUninitialized" "slot_len s' = 0"
      by (simp_all add: Reset_def) }
  { assume ok: "rc = ZX_OK"
    with c s' b show b': "Init_body (Reset s) = Some (ZX_OK, True, s')" by simp
    have "unat PAGE_SIZE \<le> unat (block_size (blk s'))"
      using Init_body_ok(2)[OF b'] by (simp add: word_le_nat_alt)
    then have pos: "0 < unat (block_size (blk s'))" by (simp add: PAGE_SIZE_def)
    with Init_body_ok(1)[OF b'] show "block s' \<noteq> []" by auto
    from pos Init_body_ok(3)[OF b'] have "0 < unat (slice_size (fvm s'))" by simp
    then show "slice_size (fvm s') \<noteq> 0" by (auto simp: unat_gt_0) }
qed

text \<open>
  An instance of each case: a raw device of three blocks, on which \<open>Init\<close> fails, and one
  of 64 blocks, on which it succeeds.
\<close>

theorem Init_failure_resets_witness:
  "(\<exists>s'. Init (Superblock False (raw_device 3)) = Some (ZX_ERR_NO_SPACE, s') \<and>
         s' = Reset (Superblock False (raw_device 3)) \<and> block s' = [] \<and>
         slice_size (fvm s') = 0 \<and> offset s' = - 1) \<and>
   (\<exists>s'. Init (Superblock False (raw_device 64)) = Some (ZX_OK, s') \<and>
         block s' \<noteq> [] \<and> slice_size (fvm s') \<noteq> 0)"
  using Init_failure_resets[OF Init_raw3] Init_failure_resets[OF Init_raw64] Init_raw3 Init_raw64
  by simp

text \<open>
  Claim C9, as amended. On a device without FVM (the FVM query returns
  \<open>ZX_ERR_NOT_SUPPORTED\<close>) whose block information is read, whose block size is
  supported and whose page-aligned block count satisfies \<open>block_count / 2 < kReservedPairs\<close>,
  \<open>Init\<close> fails with \<open>ZX_ERR_NO_SPACE\<close> and leaves the object reset.
\<close>

theorem Init_raw_too_small:
  assumes "ioctl_block_get_info (fd s) = (ZX_OK, info)"
    and "block_size info \<noteq> 0"
    and "if block_size info < PAGE_SIZE then PAGE_SIZE mod block_size info = 0
         else block_size info mod PAGE_SIZE = 0"
    and "block_resize (fd s) (unat (block_size (page_aligned info))) = ZX_OK"
    and "fst (ioctl_block_fvm_query (fd s)) = ZX_ERR_NOT_SUPPORTED"
    and "block_count (page_aligned info) div 2 < kReservedPairs"
  shows "Init s = Some (ZX_ERR_NO_SPACE, Reset s)"
proof -
  obtain rc finfo where q: "ioctl_block_fvm_query (fd s) = (rc, finfo)" by (cases "ioctl_block_fvm_query (fd s)")
  with assms(5) have rc: "rc = ZX_ERR_NOT_SUPPORTED" by simp
  have f: "fd (Reset s) = fd s" by (simp add: Reset_def)
  have "Init_body (Reset s) = Some (ZX_ERR_NO_SPACE, False,
     (Reset s)\<lparr>blk := page_aligned info, block := Resize (unat (block_size (page_aligned info))) []\<rparr>)"
    unfolding Init_body_def Let_def f assms(1) q rc
    using assms(2,3,4,6) by (cases "block_size info < PAGE_SIZE") (simp_all add: page_aligned_def Reset_def)
  then show ?thesis unfolding Init_def by (simp add: Reset_def)
qed

theorem Init_raw_too_small_witness:
  "ioctl_block_get_info (raw_device 3) = (ZX_OK, \<lparr>block_count = 3, block_size = 4096\<rparr>) \<and>
   fst (ioctl_block_fvm_query (raw_device 3)) = ZX_ERR_NOT_SUPPORTED \<and>
   block_count (page_aligned \<lparr>block_count = 3, block_size = 4096\<rparr>) div 2 < kReservedPairs \<and>
   Init (Superblock False (raw_device 3)) =
     Some (ZX_ERR_NO_SPACE, Reset (Superblock False (raw_device 3)))"
proof -
  have 1: "ioctl_block_get_info (fd (Superblock False (raw_device 3))) =
      (ZX_OK, \<lparr>block_count = 3, block_size = 4096\<rparr>)"
    by (simp add: Superblock_def Reset_def raw_device_def)
  have 2: "block_size \<lparr>block_count = 3, block_size = 4096\<rparr> \<noteq> 0" by simp
  have 3: "if block_size \<lparr>block_count = 3, block_size = 4096\<rparr> < PAGE_SIZE
     then PAGE_SIZE mod block_size \<lparr>block_count = 3, block_size = 4096\<rparr> = 0
     else block_size \<lparr>block_count = 3, block_size = 4096\<rparr> mod PAGE_SIZE = 0"
    by (simp add: PAGE_SIZE_def)
  have 4: "block_resize (fd (Superblock False (raw_device 3)))
      (unat (block_size (page_aligned \<lparr>block_count = 3, block_size = 4096\<rparr>))) = ZX_OK"
    by (simp add: Superblock_def Reset_def raw_device_def)
  have 5: "fst (ioctl_block_fvm_query (fd (Superblock False (raw_device 3)))) = ZX_ERR_NOT_SUPPORTED"
    by (simp add: Superblock_def Reset_def raw_device_def)
  have 6: "block_count (page_aligned \<lparr>block_count = 3, block_size = 4096\<rparr>) div 2 < kReservedPairs"
    by (simp add: page_aligned_def PAGE_SIZE_def kReservedPairs_def)
  from Init_raw_too_small[OF 1 2 3 4 5 6] 1 5 6 show ?thesis
    by (simp add: Superblock_def Reset_def)
qed

text \<open>
  Claim C9 as stated (the status would be \<open>ZX_ERR_NOT_SUPPORTED\<close>) fails on the raw device
  of three blocks of 4096 bytes: \<open>Init\<close> returns \<open>ZX_ERR_NO_SPACE\<close>.
\<close>

theorem Init_raw_too_small_not_unsupported:
  "fst (ioctl_block_fvm_query (raw_device 3)) = ZX_ERR_NOT_SUPPORTED \<and>
   block_count (page_aligned (snd (ioctl_block_get_info (raw_device 3)))) div 2 < kReservedPairs \<and>
   Init (Superblock False (raw_device 3)) =
     Some (ZX_ERR_NO_SPACE, Reset (Superblock False (raw_device 3))) \<and>
   (\<nexists>s'. Init (Superblock False (raw_device 3)) = Some (ZX_ERR_NOT_SUPPORTED, s'))"
  by (simp add: Init_raw3) (simp add: raw_device_def page_aligned_def PAGE_SIZE_def kReservedPairs_def)

subsection \<open>Configure\<close>

lemma Configure_known:
  assumes "lengths_known cr"
  shows "Configure cr kAES256_XTS_SHA256 s =
    (let s' = s\<lparr>aead := kAES128_GCM_SIV, cipher := kAES256_XTS, digest := kSHA256,
           digest_len := snd (digest_GetDigestLen cr kSHA256),
           wrap_key := Resize (unat (snd (AEAD_GetKeyLen cr kAES128_GCM_SIV))) (wrap_key s),
           wrap_iv := Resize (unat (snd (AEAD_GetIVLen cr kAES128_GCM_SIV))) (wrap_iv s),
           data_key := Resize (unat (snd (Cipher_GetKeyLen cr kAES256_XTS))) (data_key s),
           data_iv := Resize (unat (snd (Cipher_GetIVLen cr kAES256_XTS))) (data_iv s),
           slot_len := version_slot_len cr\<rparr>;
         total = unat (version_slot_len cr) * unat kNumSlots + kHeaderLen in
     if 2 ^ 64 \<le> total then None
     else if unat (block_size (blk s)) < total then Some (ZX_ERR_NOT_SUPPORTED, s')
     else Some (ZX_OK, s'))"
proof -
  obtain a b c d e f where g:
    "AEAD_GetKeyLen cr kAES128_GCM_SIV = (ZX_OK, a)" "AEAD_GetIVLen cr kAES128_GCM_SIV = (ZX_OK, b)"
    "AEAD_GetTagLen cr kAES128_GCM_SIV = (ZX_OK, c)" "Cipher_GetKeyLen cr kAES256_XTS = (ZX_OK, d)"
    "Cipher_GetIVLen cr kAES256_XTS = (ZX_OK, e)" "digest_GetDigestLen cr kSHA256 = (ZX_OK, f)"
    using assms unfolding lengths_known_def by (metis prod.collapse)
  show ?thesis
    unfolding Configure_def version_slot_len_def by (simp add: g Let_def)
qed

lemma Configure_ok:
  assumes "Configure cr version s = Some (ZX_OK, s')"
  shows "version = kAES256_XTS_SHA256" and "lengths_known cr"
    and "slot_len s' = version_slot_len cr"
    and "unat (slot_len s') * unat kNumSlots + kHeaderLen \<le> unat (block_size (blk s'))"
    and "s' = s\<lparr>aead := kAES128_GCM_SIV, cipher := kAES256_XTS, digest := kSHA256,
           digest_len := snd (digest_GetDigestLen cr kSHA256),
           wrap_key := Resize (unat (snd (AEAD_GetKeyLen cr kAES128_GCM_SIV))) (wrap_key s),
           wrap_iv := Resize (unat (snd (AEAD_GetIVLen cr kAES128_GCM_SIV))) (wrap_iv s),
           data_key := Resize (unat (snd (Cipher_GetKeyLen cr kAES256_XTS))) (data_key s),
           data_iv := Resize (unat (snd (Cipher_GetIVLen cr kAES256_XTS))) (data_iv s),
           slot_len := version_slot_len cr\<rparr>"
proof -
  show v: "version = kAES256_XTS_SHA256"
    using assms unfolding Configure_def by (simp split: if_splits)
  show k: "lengths_known cr"
    using assms unfolding Configure_def Let_def lengths_known_def v
    by (simp split: if_splits prod.splits)
  note c = assms[unfolded v Configure_known[OF k] Let_def]
  from c show "s' = s\<lparr>aead := kAES128_GCM_SIV, cipher := kAES256_XTS, digest := kSHA256,
           digest_len := snd (digest_GetDigestLen cr kSHA256),
           wrap_key := Resize (unat (snd (AEAD_GetKeyLen cr kAES128_GCM_SIV))) (wrap_key s),
           wrap_iv := Resize (unat (snd (AEAD_GetIVLen cr kAES128_GCM_SIV))) (wrap_iv s),
           data_key := Resize (unat (snd (Cipher_GetKeyLen cr kAES256_XTS))) (data_key s),
           data_iv := Resize (unat (snd (Cipher_GetIVLen cr kAES256_XTS))) (data_iv s),
           slot_len := version_slot_len cr\<rparr>"
    by (simp split: if_splits)
  then show "slot_len s' = version_slot_len cr" by simp
  from c show "unat (slot_len s') * unat kNumSlots + kHeaderLen \<le> unat (block_size (blk s'))"
    by (auto split: if_splits)
qed

lemma ref_lengths_known: "lengths_known ref_crypto"
  by (simp add: lengths_known_def ref_crypto_def)

lemma ref_slot_len: "version_slot_len ref_crypto = 64"
  by (simp add: version_slot_len_def ref_crypto_def)

subsection \<open>OpenBlock\<close>

lemma ntohl_2: "ntohl_bytes [0, 0, 0, 2] = 2"
  by (simp add: ntohl_bytes_def)

text \<open>
  Claim C3 does not hold of the code. A block that begins with the type GUID and carries
  the unknown version 2: \<open>Configure\<close> returns \<open>ZX_ERR_NOT_SUPPORTED\<close>, the comparison
  \<^verbatim>\<open>rc != Configure(...)\<close> is true, and \<open>OpenBlock\<close> returns \<open>rc\<close>, which is still \<open>ZX_OK\<close>:
  the block counts as opened, with no wrap key derived and no data key.
\<close>

theorem OpenBlock_unknown_version:
  "Configure ref_crypto 2 (unknown_version_block\<lparr>guid := replicate 16 7\<rparr>) =
     Some (ZX_ERR_NOT_SUPPORTED, unknown_version_block\<lparr>guid := replicate 16 7\<rparr>) \<and>
   OpenBlock ref_crypto (replicate 32 1) 0 unknown_version_block =
     Some (ZX_OK, unknown_version_block\<lparr>guid := replicate 16 7\<rparr>) \<and>
   wrap_key (unknown_version_block\<lparr>guid := replicate 16 7\<rparr>) = [] \<and>
   data_key (unknown_version_block\<lparr>guid := replicate 16 7\<rparr>) = []"
proof -
  have k: "length (kTypeGuid ref_crypto) = 16" by (simp add: ref_crypto_def)
  have c: "Configure ref_crypto 2 (unknown_version_block\<lparr>guid := replicate 16 7\<rparr>) =
     Some (ZX_ERR_NOT_SUPPORTED, unknown_version_block\<lparr>guid := replicate 16 7\<rparr>)"
    by (simp add: Configure_def kAES256_XTS_SHA256_def)
  have o: "OpenBlock ref_crypto (replicate 32 1) 0 unknown_version_block =
     Some (ZX_OK, unknown_version_block\<lparr>guid := replicate 16 7\<rparr>)"
    unfolding OpenBlock_def
    by (simp add: unknown_version_block_def k kHeaderLen_def GUID_LEN_def ntohl_2 Let_def
        Configure_def kAES256_XTS_SHA256_def)
  show ?thesis using c o
    by (simp add: unknown_version_block_def page_block_def Superblock_def Reset_def)
qed

subsection \<open>The locations the iterator yields\<close>

lemma offsets_numeral:
  "offsets (numeral k) (rc, s) =
    (if rc \<noteq> ZX_ERR_NEXT then Some []
     else case Next s of
       None \<Rightarrow> None
     | Some n \<Rightarrow> map_option ((#) (offset s)) (offsets (pred_numeral k) n))"
  by (simp add: numeral_eq_Suc)

lemma Init_fvm8: "Init (Superblock False (fvm_device 8)) = Some (ZX_OK, fvm_volume)"
  by (simp add: Init_def Init_body_def Superblock_def Reset_def raw_device_def fvm_device_def
      PAGE_SIZE_def kReservedPairs_def Let_def Resize_def fvm_volume_def)

lemma Next_fvm:
  "Next (fvm_volume\<lparr>offset := x\<rparr>) =
     (if (x + 4096) mod 16384 \<noteq> 0 \<and> (x + 4096) mod 16384 < 16384
        then Some (ZX_ERR_NEXT, fvm_volume\<lparr>offset := x + 4096\<rparr>)
      else if x + 4096 \<le> 16384 then Some (ZX_ERR_NEXT, fvm_volume\<lparr>offset := 114688\<rparr>)
      else Some (ZX_ERR_STOP, fvm_volume\<lparr>offset := x + 4096\<rparr>))"
  by (simp add: Next_def fvm_volume_def Let_def)

lemma geom_ok_raw_volume: "geom_ok (raw_volume w)"
  by (simp add: geom_ok_def raw_volume_def last_slice_def)

lemma blocks_raw_volume: "blocks_per_slice (raw_volume w) = 2"
  by (simp add: blocks_per_slice_def raw_volume_def)

lemma upt_2: "[0..<2] = [0, 1]"
  by (simp add: upt_rec)

lemma locations_raw_volume: "locations (raw_volume w) = [0, 4096, 253952, 258048]"
  by (simp add: locations_def blocks_raw_volume upt_2) (simp add: raw_volume_def last_slice_def)

lemma fd_raw_volume [simp]: "fd (raw_volume w) = w"
  by (simp add: raw_volume_def Superblock_def Reset_def)

lemma dev_raw_volume [simp]: "dev (raw_volume w) = False"
  by (simp add: raw_volume_def Superblock_def Reset_def)

text \<open>
  What \<open>Begin\<close> and \<open>Next\<close> yield on an object whose slice is made of whole blocks: the
  offset of every block of the first slice, then the offset of every block of the slice
  that begins at \<open>(vslice_count + 1) * slice_size\<close>, and they stop: twice
  \<open>slice_size / block_size\<close> offsets. They are \<open>2 * kReservedPairs\<close> offsets when the slice
  has \<open>kReservedPairs\<close> blocks, which is how \<open>Init\<close> sets the slice size of a device
  without FVM.
\<close>

lemma iterator_locations:
  assumes "geom_ok s" and "2 * blocks_per_slice s < fuel"
  shows "offsets fuel (Begin s) = Some (locations s) \<and>
         length (locations s) = 2 * blocks_per_slice s \<and>
         (unat (slice_size (fvm s)) = unat kReservedPairs * length (block s) \<longrightarrow>
            length (locations s) = 2 * unat kReservedPairs)"
proof (intro conjI impI)
  show "offsets fuel (Begin s) = Some (locations s)" using assms by (rule offsets_locations)
  show l: "length (locations s) = 2 * blocks_per_slice s" by (simp add: locations_def)
  assume "unat (slice_size (fvm s)) = unat kReservedPairs * length (block s)"
  moreover have "0 < length (block s)" using assms(1) unfolding geom_ok_def by simp
  ultimately have "blocks_per_slice s = unat kReservedPairs"
    unfolding blocks_per_slice_def by simp
  then show "length (locations s) = 2 * unat kReservedPairs" using l by simp
qed

text \<open>An instance: the raw device of 64 blocks, with two blocks in a slice.\<close>

lemma iterator_raw_four_locations:
  "geom_ok (raw_volume (raw_device 64)) \<and>
   2 * blocks_per_slice (raw_volume (raw_device 64)) < 5 \<and>
   unat (slice_size (fvm (raw_volume (raw_device 64)))) =
     unat kReservedPairs * length (block (raw_volume (raw_device 64))) \<and>
   offsets 5 (Begin (raw_volume (raw_device 64))) = Some [0, 4096, 253952, 258048] \<and>
   length (locations (raw_volume (raw_device 64))) = 2 * unat kReservedPairs"
proof -
  have g: "geom_ok (raw_volume (raw_device 64))" by (rule geom_ok_raw_volume)
  have f: "2 * blocks_per_slice (raw_volume (raw_device 64)) < 5" by (simp add: blocks_raw_volume)
  have e: "unat (slice_size (fvm (raw_volume (raw_device 64)))) =
     unat kReservedPairs * length (block (raw_volume (raw_device 64)))"
    by (simp add: raw_volume_def kReservedPairs_def)
  from iterator_locations[OF g f] e g f show ?thesis
    by (simp add: locations_raw_volume)
qed

text \<open>
  Claim C4 does not hold of the code. On the FVM partition of 8 slices of 16384 bytes
  (blocks of 4096 bytes) \<open>Init\<close> succeeds, and \<open>Begin\<close> and \<open>Next\<close> yield all four blocks of
  the first slice and all four blocks of the last slice: eight offsets, where the claim and
  the comment on \<open>kReservedPairs\<close> say \<open>2 * kReservedPairs\<close>, which is four.
\<close>

theorem iterator_fvm_eight_locations:
  "Init (Superblock False (fvm_device 8)) = Some (ZX_OK, fvm_volume) \<and>
   length (block fvm_volume) = 4096 \<and> slice_size (fvm fvm_volume) = 16384 \<and>
   offsets 9 (Begin fvm_volume) =
     Some [0, 4096, 8192, 12288, 114688, 118784, 122880, 126976] \<and>
   2 * unat kReservedPairs = 4"
proof -
  have b: "Begin fvm_volume = (ZX_ERR_NEXT, fvm_volume\<lparr>offset := 0\<rparr>)"
    by (simp add: Begin_def fvm_volume_def)
  have o: "offsets 9 (ZX_ERR_NEXT, fvm_volume\<lparr>offset := 0\<rparr>) =
     Some [0, 4096, 8192, 12288, 114688, 118784, 122880, 126976]"
    by (simp add: offsets_numeral Next_fvm)
  show ?thesis using Init_fvm8 b o by (simp add: fvm_volume_def kReservedPairs_def)
qed

subsection \<open>Shred\<close>

lemma iterate_early:
  "iterate fuel body p = Some (Some r, s') \<Longrightarrow> \<exists>s0. body s0 = Some (Some r, s')"
proof (induction fuel arbitrary: p)
  case 0
  then show ?case by (cases p) simp
next
  case (Suc fuel)
  obtain rc s where p: "p = (rc, s)" by (cases p)
  show ?case using Suc.prems Suc.IH unfolding p
    by (auto split: if_splits option.splits prod.splits)
qed

lemma Write_facts:
  assumes "Write s = (rc, s')"
  shows "block s' = block s" "fvm s' = fvm s" "offset s' = offset s" "blk s' = blk s"
    "dev s' = dev s" "wr_status (fd s') = wr_status (fd s)" "rd_status (fd s') = rd_status (fd s)"
    "s' = s\<lparr>fd := fd s'\<rparr>"
  using assms unfolding Write_def Let_def
  by (auto split: prod.splits if_splits)

lemma Write_ok:
  assumes "block s \<noteq> []"
  shows "fst (Write s) =
      (if fst (wr_status (fd s) (offset s)) = ZX_OK then ZX_OK
       else if dev s then fst (wr_status (fd s) (offset s)) else ZX_ERR_IO)"
    and "wlog (fd (snd (Write s))) = offset s # wlog (fd s)"
  using assms unfolding Write_def Let_def
  by (auto split: prod.splits if_splits)

lemma keeps_geometry_Shred_body: "keeps_geometry n Shred_body"
  unfolding keeps_geometry_def Shred_body_def
  by (auto split: prod.splits if_splits dest: Write_facts)

lemma Shred_ok_Reset:
  assumes "Shred fuel ent s = Some (ZX_OK, s')"
  shows "\<exists>t. s' = Reset t"
proof -
  have ne: "block s \<noteq> []" using assms unfolding Shred_def by (auto split: if_splits)
  let ?s = "s\<lparr>block := Randomize ent (length (block s))\<rparr>"
  from assms ne consider
      (early) "iterate fuel Shred_body (Begin ?s) = Some (Some ZX_OK, s')"
    | (fin) t where "iterate fuel Shred_body (Begin ?s) = Some (None, t)" "s' = Reset t"
    unfolding Shred_def Let_def by (auto split: option.splits prod.splits)
  then show ?thesis
  proof cases
    case early
    from iterate_early[OF this] obtain s0 where "Shred_body s0 = Some (Some ZX_OK, s')" ..
    then show ?thesis unfolding Shred_body_def by (auto split: prod.splits if_splits)
  next
    case fin
    then show ?thesis by blast
  qed
qed

lemma shred_status_cong:
  "wr_status w = wr_status w' \<Longrightarrow> shred_status d w ls = shred_status d w' ls"
  by (induction ls) simp_all

lemma shred_written_cong:
  "wr_status w = wr_status w' \<Longrightarrow> shred_written w ls = shred_written w' ls"
  by (induction ls) simp_all

lemma visit_Shred_body:
  "block s \<noteq> [] \<Longrightarrow>
   \<exists>s'. visit Shred_body fin ls s =
          Some (if shred_status (dev s) (fd s) ls = ZX_OK then None else Some (shred_status (dev s) (fd s) ls), s') \<and>
        wlog (fd s') = rev (shred_written (fd s) ls) @ wlog (fd s) \<and>
        block s' = block s \<and> s'\<lparr>fd := fd s, offset := offset s\<rparr> = s"
proof (induction ls arbitrary: s)
  case Nil
  then show ?case by simp
next
  case (Cons l ls)
  let ?s = "s\<lparr>offset := l\<rparr>"
  obtain rc s1 where w: "Write ?s = (rc, s1)" by (cases "Write ?s")
  have ne: "block ?s \<noteq> []" using Cons.prems by simp
  have rc: "rc = (if fst (wr_status (fd s) l) = ZX_OK then ZX_OK
       else if dev s then fst (wr_status (fd s) l) else ZX_ERR_IO)"
    using Write_ok(1)[OF ne] w by simp
  have lg: "wlog (fd s1) = l # wlog (fd s)" using Write_ok(2)[OF ne] w by simp
  note f = Write_facts[OF w]
  show ?case
  proof (cases "rc = ZX_OK")
    case False
    have body: "Shred_body ?s = Some (Some rc, s1)" using w False by (simp add: Shred_body_def)
    have "s1\<lparr>fd := fd s, offset := offset s\<rparr> = (?s\<lparr>fd := fd s1\<rparr>)\<lparr>fd := fd s, offset := offset s\<rparr>"
      using f(8) by simp
    then have e: "s1\<lparr>fd := fd s, offset := offset s\<rparr> = s" by simp
    have st: "fst (wr_status (fd s) l) \<noteq> ZX_OK" using False rc by (simp split: if_splits)
    then have rc': "rc = (if dev s then fst (wr_status (fd s) l) else ZX_ERR_IO)"
      using rc by simp
    show ?thesis using st body rc' lg f(1) e by simp
  next
    case True
    have ne1: "block s1 \<noteq> []" using f(1) ne by simp
    from Cons.IH[OF ne1] obtain s' where
      v: "visit Shred_body fin ls s1 =
          Some (if shred_status (dev s1) (fd s1) ls = ZX_OK then None else Some (shred_status (dev s1) (fd s1) ls), s')"
      and l': "wlog (fd s') = rev (shred_written (fd s1) ls) @ wlog (fd s1)"
      and b': "block s' = block s1" and e': "s'\<lparr>fd := fd s1, offset := offset s1\<rparr> = s1"
      by blast
    have c1: "shred_status (dev s1) (fd s1) ls = shred_status (dev s) (fd s) ls"
      using shred_status_cong[OF f(6)] f(5) by simp
    have c2: "shred_written (fd s1) ls = shred_written (fd s) ls"
      using shred_written_cong[OF f(6)] by simp
    have e: "s'\<lparr>fd := fd s, offset := offset s\<rparr> = s"
    proof -
      have "s'\<lparr>fd := fd s, offset := offset s\<rparr> = (s'\<lparr>fd := fd s1, offset := offset s1\<rparr>)\<lparr>fd := fd s, offset := offset s\<rparr>"
        by simp
      also have "\<dots> = s1\<lparr>fd := fd s, offset := offset s\<rparr>" unfolding e' ..
      also have "\<dots> = (?s\<lparr>fd := fd s1\<rparr>)\<lparr>fd := fd s, offset := offset s\<rparr>" using f(8) by simp
      also have "\<dots> = s" by simp
      finally show ?thesis .
    qed
    have body: "Shred_body ?s = Some (None, s1)" using w True by (simp add: Shred_body_def)
    have st: "fst (wr_status (fd s) l) = ZX_OK" using True rc by (simp split: if_splits)
    show ?thesis
      using st body v l' b' f(1) lg c1 c2 e by simp
  qed
qed


lemma length_Randomize [simp]: "length (Randomize ent n) = n"
  by (simp add: Randomize_def)

lemma Shred_result:
  assumes g: "geom_ok s" and fuel: "2 * blocks_per_slice s < fuel"
  shows "\<exists>s'. Shred fuel ent s = Some (shred_status (dev s) (fd s) (locations s), s') \<and>
           wlog (fd s') = rev (shred_written (fd s) (locations s)) @ wlog (fd s) \<and>
           (shred_status (dev s) (fd s) (locations s) = ZX_OK \<longrightarrow> s' = Reset s') \<and>
           (shred_status (dev s) (fd s) (locations s) \<noteq> ZX_OK \<longrightarrow>
              block s' = Randomize ent (length (block s)))"
proof -
  let ?s = "s\<lparr>block := Randomize ent (length (block s))\<rparr>"
  have ne: "block s \<noteq> []" using g unfolding geom_ok_def by auto
  have ne': "block ?s \<noteq> []" using ne by (auto simp: Randomize_def)
  have g': "geom_ok ?s" using g unfolding geom_ok_def last_slice_def by simp
  have l: "locations ?s = locations s" "blocks_per_slice ?s = blocks_per_slice s"
    unfolding locations_def blocks_per_slice_def last_slice_def by simp_all
  have it: "iterate fuel Shred_body (Begin ?s) = visit Shred_body (end_offset ?s) (locations s) ?s"
    using iterate_locations[OF g' keeps_geometry_Shred_body] fuel l by simp
  from visit_Shred_body[OF ne', of "end_offset ?s" "locations s"] obtain s' where
    v: "visit Shred_body (end_offset ?s) (locations s) ?s =
          Some (if shred_status (dev s) (fd s) (locations s) = ZX_OK then None
                else Some (shred_status (dev s) (fd s) (locations s)), s')"
    and w: "wlog (fd s') = rev (shred_written (fd s) (locations s)) @ wlog (fd s)"
    and b: "block s' = block ?s"
    by auto
  show ?thesis
  proof (cases "shred_status (dev s) (fd s) (locations s) = ZX_OK")
    case True
    then have "Shred fuel ent s = Some (ZX_OK, Reset s')"
      using ne it v unfolding Shred_def Let_def by simp
    then show ?thesis using True w by (auto simp: Reset_def)
  next
    case False
    then have "Shred fuel ent s = Some (shred_status (dev s) (fd s) (locations s), s')"
      using ne it v unfolding Shred_def Let_def by simp
    then show ?thesis using False w b by auto
  qed
qed

text \<open>
  Claim C10, as amended. After \<open>Shred\<close> has returned \<open>ZX_OK\<close> the object is reset: no block
  buffer, no geometry, no keys. On it \<open>Shred\<close> and \<open>GetInfo\<close> return \<open>ZX_ERR_BAD_STATE\<close>;
  \<open>Enroll\<close> and \<open>Revoke\<close> return \<open>ZX_ERR_BAD_STATE\<close> for a slot below \<open>kNumSlots\<close>, and
  \<open>ZX_ERR_INVALID_ARGS\<close> for any other slot, which they check first.
\<close>

theorem Shred_then_bad_state:
  assumes "Shred fuel ent s = Some (ZX_OK, s')"
  shows "s' = Reset s' \<and> block s' = [] \<and> slice_size (fvm s') = 0 \<and>
         data_key s' = [] \<and> data_iv s' = [] \<and> wrap_key s' = [] \<and> wrap_iv s' = [] \<and>
         (slot < kNumSlots \<longrightarrow>
            Enroll fuel' cr key slot s' = Some (ZX_ERR_BAD_STATE, s') \<and>
            Revoke fuel' ent' slot s' = Some (ZX_ERR_BAD_STATE, s')) \<and>
         (kNumSlots \<le> slot \<longrightarrow>
            Enroll fuel' cr key slot s' = Some (ZX_ERR_INVALID_ARGS, s') \<and>
            Revoke fuel' ent' slot s' = Some (ZX_ERR_INVALID_ARGS, s')) \<and>
         Shred fuel' ent' s' = Some (ZX_ERR_BAD_STATE, s') \<and>
         GetInfo out_blk out_fvm s' = (ZX_ERR_BAD_STATE, None, None)"
proof -
  from Shred_ok_Reset[OF assms] obtain t where t: "s' = Reset t" ..
  then have r: "s' = Reset s'" by simp
  have b: "block s' = []" unfolding t by (simp add: Reset_def)
  show ?thesis
    using r b unfolding Enroll_def Revoke_def Shred_def GetInfo_def
    by (auto simp: t Reset_def)
qed

theorem Shred_then_bad_state_witness:
  "\<exists>s'. Shred 5 (\<lambda>i. 0) (raw_volume (raw_device 64)) = Some (ZX_OK, s') \<and>
      (3 :: 64 word) < kNumSlots \<and> block s' = [] \<and>
      Enroll 5 ref_crypto (replicate 32 1) 3 s' = Some (ZX_ERR_BAD_STATE, s') \<and>
      Revoke 5 (\<lambda>i. 0) 3 s' = Some (ZX_ERR_BAD_STATE, s') \<and>
      Shred 5 (\<lambda>i. 0) s' = Some (ZX_ERR_BAD_STATE, s') \<and>
      GetInfo True True s' = (ZX_ERR_BAD_STATE, None, None)"
proof -
  have g: "geom_ok (raw_volume (raw_device 64))" by (rule geom_ok_raw_volume)
  have f: "2 * blocks_per_slice (raw_volume (raw_device 64)) < 5" by (simp add: blocks_raw_volume)
  have st: "shred_status False (raw_device 64) [0, 4096, 253952, 258048] = ZX_OK"
    by (simp add: raw_device_def)
  from Shred_result[OF g f, of "\<lambda>i. 0", unfolded locations_raw_volume fd_raw_volume dev_raw_volume st]
  obtain s' where
    s: "Shred 5 (\<lambda>i. 0) (raw_volume (raw_device 64)) = Some (ZX_OK, s')"
    by auto
  have k: "(3 :: 64 word) < kNumSlots" by (simp add: kNumSlots_def)
  from Shred_then_bad_state[OF s, of 3 5 ref_crypto "replicate 32 1" "\<lambda>i. 0" True True] s k
  show ?thesis by auto
qed

text \<open>
  Claim C10 as stated fails for slot 16: after a successful \<open>Shred\<close>, \<open>Enroll\<close> and \<open>Revoke\<close>
  return \<open>ZX_ERR_INVALID_ARGS\<close>, not \<open>ZX_ERR_BAD_STATE\<close>.
\<close>

theorem Enroll_after_Shred_invalid_slot:
  "\<exists>s'. Shred 5 (\<lambda>i. 0) (raw_volume (raw_device 64)) = Some (ZX_OK, s') \<and>
      Enroll 5 ref_crypto (replicate 32 1) 16 s' = Some (ZX_ERR_INVALID_ARGS, s') \<and>
      Revoke 5 (\<lambda>i. 0) 16 s' = Some (ZX_ERR_INVALID_ARGS, s')"
proof -
  have g: "geom_ok (raw_volume (raw_device 64))" by (rule geom_ok_raw_volume)
  have f: "2 * blocks_per_slice (raw_volume (raw_device 64)) < 5" by (simp add: blocks_raw_volume)
  have st: "shred_status False (raw_device 64) [0, 4096, 253952, 258048] = ZX_OK"
    by (simp add: raw_device_def)
  from Shred_result[OF g f, of "\<lambda>i. 0", unfolded locations_raw_volume fd_raw_volume dev_raw_volume st]
  obtain s' where
    s: "Shred 5 (\<lambda>i. 0) (raw_volume (raw_device 64)) = Some (ZX_OK, s')"
    by auto
  then show ?thesis by (auto simp: Enroll_def Revoke_def kNumSlots_def)
qed

subsection \<open>The disk\<close>

lemma length_read_bytes [simp]: "length (read_bytes d off n) = n"
  by (simp add: read_bytes_def)

lemma read_write_same: "read_bytes (write_bytes d off b) off (length b) = b"
  by (auto simp: read_bytes_def write_bytes_def intro: nth_equalityI)

lemma read_write_disjoint:
  "off1 + n \<le> off2 \<or> off2 + length b \<le> off1 \<Longrightarrow>
   read_bytes (write_bytes d off2 b) off1 n = read_bytes d off1 n"
  by (auto simp: read_bytes_def write_bytes_def)

lemma aligned_disjoint:
  fixes a b n :: nat
  assumes "n dvd a" "n dvd b" "a \<noteq> b"
  shows "a + n \<le> b \<or> b + n \<le> a"
proof -
  obtain i where i: "a = n * i" using assms(1) by auto
  obtain j where j: "b = n * j" using assms(2) by auto
  have "i \<noteq> j" using assms(3) i j by auto
  then consider "Suc i \<le> j" | "Suc j \<le> i" by linarith
  then show ?thesis
  proof cases
    case 1
    then have "n * Suc i \<le> n * j" by (rule mult_le_mono2)
    then show ?thesis using i j by simp
  next
    case 2
    then have "n * Suc j \<le> n * i" by (rule mult_le_mono2)
    then show ?thesis using i j by simp
  qed
qed

subsection \<open>Read and Write\<close>

lemma Read_shape:
  assumes "Read s = (rc, s')"
  shows "\<exists>b. s' = s\<lparr>block := b\<rparr> \<and> length b = length (block s)"
proof (cases "dev s \<and> (block s = [] \<or> fst (rd_status (fd s) (offset s)) \<noteq> ZX_OK)")
  case True
  then have "s' = s\<lparr>block := block s\<rparr>" using assms unfolding Read_def Let_def
    by (auto split: prod.splits if_splits)
  then show ?thesis by blast
next
  case False
  then show ?thesis using assms unfolding Read_def Let_def
    by (auto split: prod.splits if_splits)
qed

lemma Write_shape:
  assumes "Write s = (rc, s')"
  shows "\<exists>w. s' = s\<lparr>fd := w\<rparr> \<and> wr_status w = wr_status (fd s) \<and> rd_status w = rd_status (fd s)"
proof (cases "dev s \<and> block s = []")
  case True
  then have "s' = s\<lparr>fd := fd s\<rparr>" using assms unfolding Write_def Let_def
    by (auto split: prod.splits)
  then show ?thesis by blast
next
  case False
  then show ?thesis using assms unfolding Write_def Let_def
    by (auto split: prod.splits if_splits)
qed

lemma Read_ok:
  assumes "block s \<noteq> []" "fst (rd_status (fd s) (offset s)) = ZX_OK"
  shows "Read s = (ZX_OK, s\<lparr>block := read_bytes (disk (fd s)) (unat (offset s)) (length (block s))\<rparr>)"
  using assms unfolding Read_def Let_def
  by (auto split: prod.splits if_splits)

lemma Write_okay:
  assumes "block s \<noteq> []" "fst (wr_status (fd s) (offset s)) = ZX_OK"
  shows "Write s = (ZX_OK, s\<lparr>fd := (fd s)\<lparr>wlog := offset s # wlog (fd s),
            disk := write_bytes (disk (fd s)) (unat (offset s)) (block s)\<rparr>\<rparr>)"
  using assms unfolding Write_def Let_def
  by (auto split: prod.splits if_splits)

subsection \<open>CommitBlock\<close>

lemma CommitBlock_body_shape:
  "\<exists>w. CommitBlock_body B s = Some (None, s\<lparr>block := B, fd := w\<rparr>) \<and>
       wr_status w = wr_status (fd s) \<and> rd_status w = rd_status (fd s)"
proof -
  obtain rc s1 where r: "Read s = (rc, s1)" by (cases "Read s")
  from Read_shape[OF r] obtain b where s1: "s1 = s\<lparr>block := b\<rparr>" by blast
  obtain rc2 s2 where w: "Write (s\<lparr>block := B\<rparr>) = (rc2, s2)" by (cases "Write (s\<lparr>block := B\<rparr>)")
  from Write_shape[OF w] obtain w2 where s2: "s2 = s\<lparr>block := B, fd := w2\<rparr>"
    and st: "wr_status w2 = wr_status (fd s)" "rd_status w2 = rd_status (fd s)" by auto
  show ?thesis
  proof (cases "rc = ZX_OK \<and> b = B")
    case True
    then have "CommitBlock_body B s = Some (None, s\<lparr>block := B, fd := fd s\<rparr>)"
      unfolding CommitBlock_body_def using r s1 by simp
    then show ?thesis by blast
  next
    case False
    then have "CommitBlock_body B s = Some (None, s\<lparr>block := B, fd := w2\<rparr>)"
      unfolding CommitBlock_body_def using r s1 w s2 by auto
    then show ?thesis using st by blast
  qed
qed

lemma keeps_geometry_CommitBlock_body: "keeps_geometry (length B) (CommitBlock_body B)"
  unfolding keeps_geometry_def
proof (intro allI impI)
  fix s s'
  assume l: "length (block s) = length B" and b: "CommitBlock_body B s = Some (None, s')"
  from CommitBlock_body_shape[of B s] obtain w where
    "CommitBlock_body B s = Some (None, s\<lparr>block := B, fd := w\<rparr>)" by blast
  with b have "s' = s\<lparr>block := B, fd := w\<rparr>" by simp
  then show "length (block s') = length B \<and> fvm s' = fvm s \<and> offset s' = offset s" by simp
qed


lemma CommitBlock_body_fault_free:
  assumes "B \<noteq> []" "length (block s) = length B"
    and "fst (rd_status (fd s) (offset s)) = ZX_OK" "fst (wr_status (fd s) (offset s)) = ZX_OK"
  shows "CommitBlock_body B s =
     Some (None,
       if holds (disk (fd s)) (offset s) B then s\<lparr>block := B\<rparr>
       else s\<lparr>block := B, fd := (fd s)\<lparr>wlog := offset s # wlog (fd s),
              disk := write_bytes (disk (fd s)) (unat (offset s)) B\<rparr>\<rparr>)"
proof -
  have ne: "block s \<noteq> []" using assms(1,2) by auto
  have r: "Read s = (ZX_OK, s\<lparr>block := read_bytes (disk (fd s)) (unat (offset s)) (length B)\<rparr>)"
    using Read_ok[OF ne assms(3)] assms(2) by simp
  have w: "Write (s\<lparr>block := B\<rparr>) = (ZX_OK, s\<lparr>block := B, fd := (fd s)\<lparr>wlog := offset s # wlog (fd s),
              disk := write_bytes (disk (fd s)) (unat (offset s)) B\<rparr>\<rparr>)"
    using Write_okay[of "s\<lparr>block := B\<rparr>"] assms(1,4) by simp
  show ?thesis
    unfolding CommitBlock_body_def r using w by (simp add: holds_def)
qed

lemma unat_neq: "(l :: 64 word) \<noteq> l' \<Longrightarrow> unat l \<noteq> unat l'"
  by (simp add: word_unat_eq_iff)

lemma holds_write_other:
  fixes l l' :: "64 word"
  assumes "length B dvd unat l" "length B dvd unat l'" "l \<noteq> l'"
  shows "read_bytes (write_bytes d (unat l) B) (unat l') (length B) = read_bytes d (unat l') (length B)"
  using aligned_disjoint[OF assms(2) assms(1)] unat_neq[OF assms(3)]
  by (intro read_write_disjoint) auto

lemma visit_CommitBlock_body:
  assumes B: "B \<noteq> []"
  shows "\<lbrakk>length (block s) = length B; fault_free (fd s) ls; distinct ls;
      \<forall>l\<in>set ls. length B dvd unat l\<rbrakk> \<Longrightarrow>
    \<exists>w. visit (CommitBlock_body B) fin ls s =
           Some (None, s\<lparr>offset := fin, block := (if ls = [] then block s else B), fd := w\<rparr>) \<and>
        w = (fd s)\<lparr>wlog := wlog w, disk := disk w\<rparr> \<and>
        wlog w = rev (filter (\<lambda>l. \<not> holds (disk (fd s)) l B) ls) @ wlog (fd s) \<and>
        ((\<forall>l\<in>set ls. holds (disk (fd s)) l B) \<longrightarrow> w = fd s) \<and>
        (\<forall>l. length B dvd unat l \<longrightarrow>
            (if l \<in> set ls then holds (disk w) l B
             else read_bytes (disk w) (unat l) (length B) = read_bytes (disk (fd s)) (unat l) (length B)))"
proof (induction ls arbitrary: s)
  case Nil
  show ?case by (auto intro!: exI[of _ "fd s"])
next
  case (Cons l ls)
  let ?n = "length B"
  let ?d = "disk (fd s)"
  let ?s0 = "s\<lparr>offset := l\<rparr>"
  define w1 where "w1 = (if holds ?d l B then fd s
     else (fd s)\<lparr>wlog := l # wlog (fd s), disk := write_bytes ?d (unat l) B\<rparr>)"
  define s1 where "s1 = ?s0\<lparr>block := B, fd := w1\<rparr>"
  have ff: "fst (rd_status (fd s) l) = ZX_OK" "fst (wr_status (fd s) l) = ZX_OK"
    "fault_free (fd s) ls"
    using Cons.prems(2) unfolding fault_free_def by simp_all
  have al: "?n dvd unat l" "\<forall>l'\<in>set ls. ?n dvd unat l'" using Cons.prems(4) by simp_all
  have di: "l \<notin> set ls" "distinct ls" using Cons.prems(3) by simp_all
  have body: "CommitBlock_body B ?s0 = Some (None, s1)"
    using CommitBlock_body_fault_free[OF B, of ?s0] Cons.prems(1) ff(1,2)
    unfolding s1_def w1_def by simp
  have fd1: "fd s1 = w1" and len1: "length (block s1) = length B" and b1: "block s1 = B"
    unfolding s1_def by simp_all
  have upd: "s1\<lparr>offset := fin, block := X, fd := w\<rparr> = s\<lparr>offset := fin, block := X, fd := w\<rparr>" for X w
    unfolding s1_def by simp
  have w1s: "w1 = (fd s)\<lparr>wlog := wlog w1, disk := disk w1\<rparr>"
    unfolding w1_def by simp
  have w1l: "wlog w1 = (if holds ?d l B then [] else [l]) @ wlog (fd s)"
    unfolding w1_def by simp
  have w1h: "holds ?d l B \<Longrightarrow> w1 = fd s" unfolding w1_def by simp
  have ff1: "fault_free (fd s1) ls" using ff(3) unfolding fault_free_def fd1 w1_def by simp
  have other: "read_bytes (disk w1) (unat l') ?n = read_bytes ?d (unat l') ?n"
    if "?n dvd unat l'" "l' \<noteq> l" for l' :: "64 word"
    using holds_write_other[OF al(1) that(1), of ?d] that(2) unfolding w1_def by auto
  have same: "holds (disk w1) l B"
    using read_write_same[of ?d "unat l" B] unfolding w1_def by (auto simp: holds_def)
  from Cons.IH[of s1, OF len1 ff1 di(2) al(2)] obtain w where
    v: "visit (CommitBlock_body B) fin ls s1 =
           Some (None, s1\<lparr>offset := fin, block := (if ls = [] then block s1 else B), fd := w\<rparr>)"
    and sh: "w = (fd s1)\<lparr>wlog := wlog w, disk := disk w\<rparr>"
    and lg: "wlog w = rev (filter (\<lambda>l. \<not> holds (disk (fd s1)) l B) ls) @ wlog (fd s1)"
    and un: "(\<forall>l\<in>set ls. holds (disk (fd s1)) l B) \<longrightarrow> w = fd s1"
    and rd: "\<forall>l. ?n dvd unat l \<longrightarrow>
            (if l \<in> set ls then holds (disk w) l B
             else read_bytes (disk w) (unat l) ?n = read_bytes (disk (fd s1)) (unat l) ?n)"
    by blast
  have hs: "holds (disk w1) l' B = holds ?d l' B" if "l' \<in> set ls" for l'
  proof -
    have "l' \<noteq> l" using that di(1) by auto
    moreover have "?n dvd unat l'" using that al(2) by auto
    ultimately show ?thesis using other[of l'] by (simp add: holds_def)
  qed
  have flt: "filter (\<lambda>l. \<not> holds (disk w1) l B) ls = filter (\<lambda>l. \<not> holds ?d l B) ls"
    by (rule filter_cong) (simp_all add: hs)
  have 1: "visit (CommitBlock_body B) fin (l # ls) s =
      Some (None, s\<lparr>offset := fin, block := B, fd := w\<rparr>)"
    using body v b1 by (simp add: upd)
  have 2: "w = (fd s)\<lparr>wlog := wlog w, disk := disk w\<rparr>"
  proof -
    have "w = ((fd s)\<lparr>wlog := wlog w1, disk := disk w1\<rparr>)\<lparr>wlog := wlog w, disk := disk w\<rparr>"
      using sh w1s unfolding fd1 by simp
    then show ?thesis by simp
  qed
  have 3: "wlog w = rev (filter (\<lambda>l. \<not> holds ?d l B) (l # ls)) @ wlog (fd s)"
    using lg unfolding fd1 flt w1l by simp
  have 4: "(\<forall>l'\<in>set (l # ls). holds ?d l' B) \<longrightarrow> w = fd s"
    using un w1h unfolding fd1 by (auto simp: hs)
  have 5: "\<forall>l'. ?n dvd unat l' \<longrightarrow>
            (if l' \<in> set (l # ls) then holds (disk w) l' B
             else read_bytes (disk w) (unat l') ?n = read_bytes ?d (unat l') ?n)"
  proof (intro allI impI)
    fix l' :: "64 word" assume a: "?n dvd unat l'"
    from rd a have r: "if l' \<in> set ls then holds (disk w) l' B
             else read_bytes (disk w) (unat l') ?n = read_bytes (disk w1) (unat l') ?n"
      unfolding fd1 by blast
    show "if l' \<in> set (l # ls) then holds (disk w) l' B
             else read_bytes (disk w) (unat l') ?n = read_bytes ?d (unat l') ?n"
    proof (cases "l' \<in> set ls")
      case True
      then show ?thesis using r by simp
    next
      case False
      show ?thesis
      proof (cases "l' = l")
        case True
        then show ?thesis using r False same by (simp add: holds_def)
      next
        case ne: False
        then show ?thesis using r False other[OF a ne] by simp
      qed
    qed
  qed
  show ?case using 1 2 3 4 5 by (intro exI[of _ w]) simp
qed


lemma unat_locations:
  assumes g: "geom_ok s"
  shows "map unat (locations s) =
     map (\<lambda>k. k * length (block s)) [0..<blocks_per_slice s] @
     map (\<lambda>k. last_slice s + k * length (block s)) [0..<blocks_per_slice s]"
proof -
  let ?bs = "length (block s)" and ?ss = "unat (slice_size (fvm s))"
  have a: "0 < ?bs" "?ss mod ?bs = 0" "last_slice s + ?ss < 2 ^ 64"
    using g unfolding geom_ok_def by auto
  have lt: "k * ?bs < ?ss" if "k < blocks_per_slice s" for k
  proof -
    have "k * ?bs + ?bs \<le> ?ss"
      using slice_arith(1)[OF a(1,2)] that unfolding blocks_per_slice_def .
    with a(1) show ?thesis by linarith
  qed
  have 1: "unat (of_nat (k * ?bs) :: 64 word) = k * ?bs" if "k < blocks_per_slice s" for k
    using lt[OF that] a(3) by (intro unat_of_nat64) simp
  have 2: "unat (of_nat (last_slice s + k * ?bs) :: 64 word) = last_slice s + k * ?bs"
    if "k < blocks_per_slice s" for k
    using lt[OF that] a(3) by (intro unat_of_nat64) simp
  show ?thesis unfolding locations_def using 1 2 by (simp del: of_nat_add of_nat_mult)
qed

lemma locations_aligned:
  assumes g: "geom_ok s" and l: "l \<in> set (locations s)"
  shows "length (block s) dvd unat l"
proof -
  have d: "length (block s) dvd last_slice s"
    using g unfolding geom_ok_def last_slice_def by (auto simp: mod_eq_0_iff_dvd)
  have "unat l \<in> set (map unat (locations s))" using l by simp
  then show ?thesis unfolding unat_locations[OF g] using d by auto
qed

lemma locations_distinct:
  assumes g: "geom_ok s"
  shows "distinct (locations s)"
proof -
  let ?bs = "length (block s)" and ?ss = "unat (slice_size (fvm s))"
  have a: "0 < ?bs" "?ss mod ?bs = 0" "0 < ?ss"
    using g unfolding geom_ok_def by auto
  have lt: "k * ?bs < ?ss" if "k < blocks_per_slice s" for k
  proof -
    have "k * ?bs + ?bs \<le> ?ss"
      using slice_arith(1)[OF a(1,2)] that unfolding blocks_per_slice_def .
    with a(1) show ?thesis by linarith
  qed
  have le: "?ss \<le> last_slice s" unfolding last_slice_def by simp
  have "distinct (map (\<lambda>k. k * ?bs) [0..<blocks_per_slice s] @
     map (\<lambda>k. last_slice s + k * ?bs) [0..<blocks_per_slice s])"
    using a(1) lt le by (auto simp: distinct_map inj_on_def) fastforce
  then have "distinct (map unat (locations s))" unfolding unat_locations[OF g] .
  then show ?thesis by (simp add: distinct_map)
qed


lemma Next_block:
  "Next s = Some (rc, s') \<Longrightarrow> block s' = block s"
  unfolding Next_def Let_def by (auto split: if_splits)

lemma iterate_CommitBlock_body:
  "iterate fuel (CommitBlock_body B) (rc, s) = Some (r, s') \<Longrightarrow> block s = B \<Longrightarrow>
     r = None \<and> block s' = B"
proof (induction fuel arbitrary: rc s)
  case 0
  then show ?case by simp
next
  case (Suc fuel)
  show ?case
  proof (cases "rc = ZX_ERR_NEXT")
    case False
    then show ?thesis using Suc.prems by simp
  next
    case True
    from CommitBlock_body_shape[of B s] obtain w where
      b: "CommitBlock_body B s = Some (None, s\<lparr>block := B, fd := w\<rparr>)" by blast
    obtain rc1 s1 where n: "Next (s\<lparr>block := B, fd := w\<rparr>) = Some (rc1, s1)"
      and it: "iterate fuel (CommitBlock_body B) (rc1, s1) = Some (r, s')"
      using Suc.prems(1) True b by (auto split: option.splits)
    have "block s1 = B" using Next_block[OF n] by simp
    from Suc.IH[OF it this] show ?thesis .
  qed
qed

lemma CommitBlock_keeps_block:
  assumes "CommitBlock fuel s = Some (rc, s')"
  shows "rc = ZX_OK \<and> block s' = block s"
proof -
  obtain rc0 s0 where b: "Begin s = (rc0, s0)" by (cases "Begin s")
  have b0: "block s0 = block s" using b unfolding Begin_def by (auto split: if_splits)
  obtain r where it: "iterate fuel (CommitBlock_body (block s)) (rc0, s0) = Some (r, s')"
    and rc: "rc = (case r of None \<Rightarrow> ZX_OK | Some x \<Rightarrow> x)"
    using assms b unfolding CommitBlock_def by (auto split: option.splits)
  from iterate_CommitBlock_body[OF it b0] rc show ?thesis by simp
qed

lemma CommitBlock_result:
  assumes g: "geom_ok s" and fuel: "2 * blocks_per_slice s < fuel"
    and ff: "fault_free (fd s) (locations s)"
  shows "\<exists>w. CommitBlock fuel s = Some (ZX_OK, s\<lparr>offset := end_offset s, fd := w\<rparr>) \<and>
     w = (fd s)\<lparr>wlog := wlog w, disk := disk w\<rparr> \<and>
     wlog w = rev (filter (\<lambda>l. \<not> holds (disk (fd s)) l (block s)) (locations s)) @ wlog (fd s) \<and>
     ((\<forall>l\<in>set (locations s). holds (disk (fd s)) l (block s)) \<longrightarrow> w = fd s) \<and>
     (\<forall>l\<in>set (locations s). holds (disk w) l (block s))"
proof -
  let ?B = "block s"
  have ne: "?B \<noteq> []" using g unfolding geom_ok_def by auto
  have al: "\<forall>l\<in>set (locations s). length ?B dvd unat l"
    using locations_aligned[OF g] by blast
  have it: "iterate fuel (CommitBlock_body ?B) (Begin s) =
      visit (CommitBlock_body ?B) (end_offset s) (locations s) s"
    by (rule iterate_locations[OF g keeps_geometry_CommitBlock_body fuel])
  from visit_CommitBlock_body[OF ne refl ff locations_distinct[OF g] al, of "end_offset s"]
  obtain w where
    v: "visit (CommitBlock_body ?B) (end_offset s) (locations s) s =
          Some (None, s\<lparr>offset := end_offset s,
             block := (if locations s = [] then block s else ?B), fd := w\<rparr>)"
    and sh: "w = (fd s)\<lparr>wlog := wlog w, disk := disk w\<rparr>"
    and lg: "wlog w = rev (filter (\<lambda>l. \<not> holds (disk (fd s)) l ?B) (locations s)) @ wlog (fd s)"
    and un: "(\<forall>l\<in>set (locations s). holds (disk (fd s)) l ?B) \<longrightarrow> w = fd s"
    and rd: "\<forall>l. length ?B dvd unat l \<longrightarrow>
            (if l \<in> set (locations s) then holds (disk w) l ?B
             else read_bytes (disk w) (unat l) (length ?B) =
                  read_bytes (disk (fd s)) (unat l) (length ?B))"
    by blast
  have c: "CommitBlock fuel s = Some (ZX_OK, s\<lparr>offset := end_offset s, fd := w\<rparr>)"
    unfolding CommitBlock_def it v by simp
  have h: "\<forall>l\<in>set (locations s). holds (disk w) l ?B" using rd al by auto
  show ?thesis using c sh lg un h by blast
qed

lemma geom_ok_cong:
  "length (block s') = length (block s) \<Longrightarrow> fvm s' = fvm s \<Longrightarrow> geom_ok s' = geom_ok s"
  unfolding geom_ok_def last_slice_def by simp

lemma locations_cong:
  "length (block s') = length (block s) \<Longrightarrow> fvm s' = fvm s \<Longrightarrow> locations s' = locations s"
  unfolding locations_def last_slice_def blocks_per_slice_def by simp

lemma blocks_per_slice_cong:
  "length (block s') = length (block s) \<Longrightarrow> fvm s' = fvm s \<Longrightarrow>
   blocks_per_slice s' = blocks_per_slice s"
  unfolding blocks_per_slice_def by simp

lemma CommitBlock_twice:
  assumes g: "geom_ok s" and fuel: "2 * blocks_per_slice s < fuel"
    and ff: "fault_free (fd s) (locations s)"
  shows "\<exists>s1 s2. CommitBlock fuel s = Some (ZX_OK, s1) \<and> block s1 = block s \<and>
        wlog (fd s1) = rev (filter (\<lambda>l. \<not> holds (disk (fd s)) l (block s)) (locations s)) @ wlog (fd s) \<and>
        (\<forall>l\<in>set (locations s). holds (disk (fd s1)) l (block s)) \<and>
        CommitBlock fuel s1 = Some (ZX_OK, s2) \<and> wlog (fd s2) = wlog (fd s1) \<and>
        fd s2 = fd s1 \<and> block s2 = block s"
proof -
  from CommitBlock_result[OF g fuel ff] obtain w where
    c: "CommitBlock fuel s = Some (ZX_OK, s\<lparr>offset := end_offset s, fd := w\<rparr>)"
    and sh: "w = (fd s)\<lparr>wlog := wlog w, disk := disk w\<rparr>"
    and lg: "wlog w = rev (filter (\<lambda>l. \<not> holds (disk (fd s)) l (block s)) (locations s)) @ wlog (fd s)"
    and h: "\<forall>l\<in>set (locations s). holds (disk w) l (block s)"
    by blast
  let ?s1 = "s\<lparr>offset := end_offset s, fd := w\<rparr>"
  have g1: "geom_ok ?s1" using g geom_ok_cong[of ?s1 s] by simp
  have l1: "locations ?s1 = locations s" by (rule locations_cong) simp_all
  have f1: "2 * blocks_per_slice ?s1 < fuel" using fuel blocks_per_slice_cong[of ?s1 s] by simp
  have st: "rd_status w = rd_status (fd s)" "wr_status w = wr_status (fd s)"
    using arg_cong[OF sh, of rd_status] arg_cong[OF sh, of wr_status] by simp_all
  have ff1: "fault_free (fd ?s1) (locations ?s1)"
    using ff unfolding l1 fault_free_def by (simp add: st)
  from CommitBlock_result[OF g1 f1 ff1] obtain w2 where
    c2: "CommitBlock fuel ?s1 = Some (ZX_OK, ?s1\<lparr>offset := end_offset ?s1, fd := w2\<rparr>)"
    and un: "(\<forall>l\<in>set (locations ?s1). holds (disk (fd ?s1)) l (block ?s1)) \<longrightarrow> w2 = fd ?s1"
    by blast
  have w2: "w2 = w" using un h unfolding l1 by simp
  show ?thesis
    using c c2 lg h w2 by (intro exI[of _ ?s1] exI[of _ "?s1\<lparr>offset := end_offset ?s1, fd := w2\<rparr>"]) simp
qed

text \<open>
  Claim C5. \<open>CommitBlock\<close> always returns \<open>ZX_OK\<close> with the block buffer equal to the copy
  it saved on entry, whatever the device did. On a device that reads and writes the
  locations without error (and a geometry of whole blocks), it issues a write exactly at
  the locations whose on-disk block differs from the copy, in the order of the iterator,
  and skips the others; afterwards every location holds the copy, and a second
  \<open>CommitBlock\<close> right after it returns \<open>ZX_OK\<close> having issued no write and left the device
  as it was.
\<close>

theorem CommitBlock_idempotent:
  "(CommitBlock fuel s = Some (rc, s') \<longrightarrow> rc = ZX_OK \<and> block s' = block s) \<and>
   (geom_ok s \<and> 2 * blocks_per_slice s < fuel \<and> fault_free (fd s) (locations s) \<longrightarrow>
     (\<exists>s1 s2. CommitBlock fuel s = Some (ZX_OK, s1) \<and> block s1 = block s \<and>
        wlog (fd s1) = rev (filter (\<lambda>l. \<not> holds (disk (fd s)) l (block s)) (locations s)) @ wlog (fd s) \<and>
        (\<forall>l\<in>set (locations s). holds (disk (fd s1)) l (block s)) \<and>
        CommitBlock fuel s1 = Some (ZX_OK, s2) \<and> wlog (fd s2) = wlog (fd s1) \<and>
        fd s2 = fd s1 \<and> block s2 = block s))"
  using CommitBlock_keeps_block[of fuel s rc s'] CommitBlock_twice[of s fuel] by blast

lemma read_bytes_const: "read_bytes (\<lambda>a. c) off n = replicate n c"
  by (simp add: read_bytes_def map_replicate_const)

text \<open>
  An instance: a block image of ones over a disk of zeros. The first \<open>CommitBlock\<close> writes
  the four locations, the second writes nothing.
\<close>

theorem CommitBlock_idempotent_witness:
  "geom_ok dirty_volume \<and> 2 * blocks_per_slice dirty_volume < 5 \<and>
   fault_free (fd dirty_volume) (locations dirty_volume) \<and>
   (\<exists>s1 s2. CommitBlock 5 dirty_volume = Some (ZX_OK, s1) \<and> block s1 = block dirty_volume \<and>
      wlog (fd s1) = [258048, 253952, 4096, 0] \<and>
      CommitBlock 5 s1 = Some (ZX_OK, s2) \<and> wlog (fd s2) = wlog (fd s1) \<and> block s2 = block dirty_volume)"
proof -
  have g: "geom_ok dirty_volume"
    by (simp add: geom_ok_def dirty_volume_def raw_volume_def last_slice_def)
  have f: "2 * blocks_per_slice dirty_volume < 5"
    by (simp add: blocks_per_slice_def dirty_volume_def raw_volume_def)
  have l: "locations dirty_volume = [0, 4096, 253952, 258048]"
    using locations_cong[of dirty_volume "raw_volume (raw_device 64)"] locations_raw_volume
    by (simp add: dirty_volume_def raw_volume_def)
  have w: "fd dirty_volume = raw_device 64" by (simp add: dirty_volume_def)
  have ff: "fault_free (fd dirty_volume) (locations dirty_volume)"
    unfolding l w by (simp add: fault_free_def raw_device_def)
  have h: "\<not> holds (disk (raw_device 64)) x (block dirty_volume)" for x
    by (simp add: holds_def raw_device_def dirty_volume_def read_bytes_const)
  have lg: "wlog (raw_device 64) = []" by (simp add: raw_device_def)
  from CommitBlock_idempotent[of 5 dirty_volume, THEN conjunct2, rule_format, OF conjI[OF g conjI[OF f ff]]]
  show ?thesis using g f ff unfolding l w by (simp add: h lg) blast
qed

subsection \<open>What Shred writes\<close>

lemma Write_disk:
  assumes "block s \<noteq> []"
  shows "disk (fd (snd (Write s))) =
     write_bytes (disk (fd s)) (unat (offset s))
       (if fst (wr_status (fd s) (offset s)) = ZX_OK then block s
        else take (snd (wr_status (fd s) (offset s))) (block s))"
  using assms unfolding Write_def Let_def
  by (auto split: prod.splits if_splits)

lemma shred_disk_cong:
  "wr_status w = wr_status w' \<Longrightarrow> shred_disk w B ls d = shred_disk w' B ls d"
  by (induction ls arbitrary: d) simp_all

lemma visit_Shred_body_disk:
  "block s \<noteq> [] \<Longrightarrow> visit Shred_body fin ls s = Some (r, s') \<Longrightarrow>
   disk (fd s') = shred_disk (fd s) (block s) ls (disk (fd s))"
proof (induction ls arbitrary: s)
  case Nil
  then show ?case by auto
next
  case (Cons l ls)
  let ?s = "s\<lparr>offset := l\<rparr>"
  obtain rc s1 where w: "Write ?s = (rc, s1)" by (cases "Write ?s")
  have ne: "block ?s \<noteq> []" using Cons.prems by simp
  have rc: "rc = (if fst (wr_status (fd s) l) = ZX_OK then ZX_OK
       else if dev s then fst (wr_status (fd s) l) else ZX_ERR_IO)"
    using Write_ok(1)[OF ne] w by simp
  have dk: "disk (fd s1) = write_bytes (disk (fd s)) (unat l)
       (if fst (wr_status (fd s) l) = ZX_OK then block s
        else take (snd (wr_status (fd s) l)) (block s))"
    using Write_disk[OF ne] w by simp
  note f = Write_facts[OF w]
  show ?case
  proof (cases "fst (wr_status (fd s) l) = ZX_OK")
    case False
    then have "rc \<noteq> ZX_OK" using rc by simp
    then have "Shred_body ?s = Some (Some rc, s1)" using w by (simp add: Shred_body_def)
    then have "s' = s1" using Cons.prems(2) by simp
    then show ?thesis using dk False by simp
  next
    case True
    then have "rc = ZX_OK" using rc by simp
    then have body: "Shred_body ?s = Some (None, s1)" using w by (simp add: Shred_body_def)
    then have v: "visit Shred_body fin ls s1 = Some (r, s')" using Cons.prems(2) by simp
    have ne1: "block s1 \<noteq> []" using f(1) ne by simp
    have "disk (fd s') = shred_disk (fd s1) (block s1) ls (disk (fd s1))"
      by (rule Cons.IH[OF ne1 v])
    also have "\<dots> = shred_disk (fd s) (block s) ls (disk (fd s1))"
      using shred_disk_cong[OF f(6)] f(1) by simp
    finally show ?thesis using dk True by simp
  qed
qed

lemma shred_disk_other:
  fixes l' :: "64 word"
  assumes al': "length B dvd unat l'"
  shows "\<forall>l\<in>set ls. length B dvd unat l \<Longrightarrow> l' \<notin> set (shred_written w ls) \<Longrightarrow>
     read_bytes (shred_disk w B ls d) (unat l') (length B) = read_bytes d (unat l') (length B)"
proof (induction ls arbitrary: d)
  case Nil
  show ?case by simp
next
  case (Cons l ls)
  have ne: "l' \<noteq> l" using Cons.prems(2) by auto
  have al: "length B dvd unat l" using Cons.prems(1) by simp
  have dj: "unat l' + length B \<le> unat l \<or> unat l + length B \<le> unat l'"
    using aligned_disjoint[OF al' al] unat_neq[OF ne] by auto
  have wr: "read_bytes (write_bytes d (unat l) X) (unat l') (length B) = read_bytes d (unat l') (length B)"
    if "length X \<le> length B" for X
    using dj that by (intro read_write_disjoint) auto
  show ?case
  proof (cases "fst (wr_status w l) = ZX_OK")
    case False
    then show ?thesis using wr[of "take (snd (wr_status w l)) B"] by simp
  next
    case True
    then have "l' \<notin> set (shred_written w ls)" using Cons.prems(2) by simp
    from Cons.IH[OF _ this, of "write_bytes d (unat l) B"] Cons.prems(1)
    show ?thesis using True wr[of B] by simp
  qed
qed

lemma shred_written_subset: "set (shred_written w ls) \<subseteq> set ls"
  by (induction ls) auto

lemma shred_disk_holds:
  "\<forall>l\<in>set ls. length B dvd unat l \<Longrightarrow> distinct ls \<Longrightarrow>
   l' \<in> set (takeWhile (\<lambda>l. fst (wr_status w l) = ZX_OK) ls) \<Longrightarrow>
   holds (shred_disk w B ls d) l' B"
proof (induction ls arbitrary: d)
  case Nil
  then show ?case by simp
next
  case (Cons l ls)
  have ok: "fst (wr_status w l) = ZX_OK" using Cons.prems(3) by (auto split: if_splits)
  have al: "\<forall>l\<in>set ls. length B dvd unat l" "length B dvd unat l" using Cons.prems(1) by simp_all
  show ?case
  proof (cases "l' = l")
    case True
    have "l \<notin> set (shred_written w ls)" using Cons.prems(2) shred_written_subset[of w ls] by auto
    from shred_disk_other[OF al(2) al(1) this, of "write_bytes d (unat l) B"]
    show ?thesis using ok True read_write_same[of d "unat l" B] by (simp add: holds_def)
  next
    case False
    then have "l' \<in> set (takeWhile (\<lambda>l. fst (wr_status w l) = ZX_OK) ls)"
      using Cons.prems(3) ok by simp
    from Cons.IH[OF al(1) _ this] Cons.prems(2) show ?thesis using ok by simp
  qed
qed

lemma shred_status_ok:
  "shred_status d w ls = ZX_OK \<Longrightarrow> takeWhile (\<lambda>l. fst (wr_status w l) = ZX_OK) ls = ls"
  by (induction ls) (auto split: if_splits)

lemma Shred_disk:
  assumes g: "geom_ok s" and fuel: "2 * blocks_per_slice s < fuel"
    and sh: "Shred fuel ent s = Some (rc, s')"
  shows "disk (fd s') =
     shred_disk (fd s) (Randomize ent (length (block s))) (locations s) (disk (fd s))"
proof -
  let ?s = "s\<lparr>block := Randomize ent (length (block s))\<rparr>"
  have ne: "block s \<noteq> []" using g unfolding geom_ok_def by auto
  have ne': "block ?s \<noteq> []" using ne by (auto simp: Randomize_def)
  have g': "geom_ok ?s" using g unfolding geom_ok_def last_slice_def by simp
  have l: "locations ?s = locations s" "blocks_per_slice ?s = blocks_per_slice s"
    unfolding locations_def blocks_per_slice_def last_slice_def by simp_all
  have it: "iterate fuel Shred_body (Begin ?s) = visit Shred_body (end_offset ?s) (locations s) ?s"
    using iterate_locations[OF g' keeps_geometry_Shred_body] fuel l by simp
  from sh ne it obtain r t where v: "visit Shred_body (end_offset ?s) (locations s) ?s = Some (r, t)"
    and s': "s' = t \<or> s' = Reset t"
    unfolding Shred_def Let_def by (auto split: option.splits)
  have "disk (fd t) = shred_disk (fd ?s) (block ?s) (locations s) (disk (fd ?s))"
    by (rule visit_Shred_body_disk[OF ne' v])
  moreover have "fd s' = fd t" using s' by auto
  ultimately show ?thesis by simp
qed

lemma Shred_error_object:
  assumes g: "geom_ok s" and fuel: "2 * blocks_per_slice s < fuel"
    and sh: "Shred fuel ent s = Some (rc, s')" and rc: "rc \<noteq> ZX_OK"
  shows "s'\<lparr>fd := fd s, offset := offset s\<rparr> = s\<lparr>block := Randomize ent (length (block s))\<rparr>"
proof -
  let ?s = "s\<lparr>block := Randomize ent (length (block s))\<rparr>"
  have ne: "block s \<noteq> []" using g unfolding geom_ok_def by auto
  have ne': "block ?s \<noteq> []" using ne by (auto simp: Randomize_def)
  have g': "geom_ok ?s" using g unfolding geom_ok_def last_slice_def by simp
  have l: "locations ?s = locations s" "blocks_per_slice ?s = blocks_per_slice s"
    unfolding locations_def blocks_per_slice_def last_slice_def by simp_all
  have it: "iterate fuel Shred_body (Begin ?s) = visit Shred_body (end_offset ?s) (locations s) ?s"
    using iterate_locations[OF g' keeps_geometry_Shred_body] fuel l by simp
  from sh ne it rc have v: "visit Shred_body (end_offset ?s) (locations s) ?s = Some (Some rc, s')"
    unfolding Shred_def Let_def by (auto split: option.splits)
  from visit_Shred_body[OF ne', of "end_offset ?s" "locations s"] obtain t where
    "visit Shred_body (end_offset ?s) (locations s) ?s =
       Some (if shred_status (dev ?s) (fd ?s) (locations s) = ZX_OK then None
             else Some (shred_status (dev ?s) (fd ?s) (locations s)), t)"
    and e: "t\<lparr>fd := fd ?s, offset := offset ?s\<rparr> = ?s"
    by blast
  with v have "t = s'" by (auto split: if_splits)
  with e show ?thesis by simp
qed

lemma Shred_result_disk:
  assumes g: "geom_ok s" and fuel: "2 * blocks_per_slice s < fuel"
  shows "\<exists>s'. Shred fuel ent s = Some (shred_status (dev s) (fd s) (locations s), s') \<and>
           wlog (fd s') = rev (shred_written (fd s) (locations s)) @ wlog (fd s) \<and>
           disk (fd s') =
             shred_disk (fd s) (Randomize ent (length (block s))) (locations s) (disk (fd s)) \<and>
           (\<forall>l\<in>set (takeWhile (\<lambda>l. fst (wr_status (fd s) l) = ZX_OK) (locations s)).
              holds (disk (fd s')) l (Randomize ent (length (block s)))) \<and>
           (\<forall>l\<in>set (locations s). l \<notin> set (shred_written (fd s) (locations s)) \<longrightarrow>
              read_bytes (disk (fd s')) (unat l) (length (block s)) =
              read_bytes (disk (fd s)) (unat l) (length (block s))) \<and>
           (shred_status (dev s) (fd s) (locations s) = ZX_OK \<longrightarrow>
              s' = Reset s' \<and>
              (\<forall>l\<in>set (locations s). holds (disk (fd s')) l (Randomize ent (length (block s))))) \<and>
           (shred_status (dev s) (fd s) (locations s) \<noteq> ZX_OK \<longrightarrow>
              block s' = Randomize ent (length (block s)) \<and>
              s'\<lparr>fd := fd s, offset := offset s\<rparr> =
                s\<lparr>block := Randomize ent (length (block s))\<rparr>)"
proof -
  let ?R = "Randomize ent (length (block s))"
  let ?ok = "\<lambda>l. fst (wr_status (fd s) l) = ZX_OK"
  from Shred_result[OF g fuel, of ent] obtain s' where
    sh: "Shred fuel ent s = Some (shred_status (dev s) (fd s) (locations s), s')"
    and lg: "wlog (fd s') = rev (shred_written (fd s) (locations s)) @ wlog (fd s)"
    and ok: "shred_status (dev s) (fd s) (locations s) = ZX_OK \<longrightarrow> s' = Reset s'"
    and er: "shred_status (dev s) (fd s) (locations s) \<noteq> ZX_OK \<longrightarrow> block s' = ?R"
    by blast
  have dk: "disk (fd s') = shred_disk (fd s) ?R (locations s) (disk (fd s))"
    by (rule Shred_disk[OF g fuel sh])
  have len: "length ?R = length (block s)" by simp
  have al: "\<forall>l\<in>set (locations s). length ?R dvd unat l"
    using locations_aligned[OF g] by simp
  have di: "distinct (locations s)" by (rule locations_distinct[OF g])
  have h: "\<forall>l\<in>set (takeWhile ?ok (locations s)). holds (disk (fd s')) l ?R"
    unfolding dk using shred_disk_holds[OF al di] by blast
  have u: "\<forall>l\<in>set (locations s). l \<notin> set (shred_written (fd s) (locations s)) \<longrightarrow>
              read_bytes (disk (fd s')) (unat l) (length (block s)) =
              read_bytes (disk (fd s)) (unat l) (length (block s))"
  proof (intro ballI impI)
    fix l assume a: "l \<in> set (locations s)" "l \<notin> set (shred_written (fd s) (locations s))"
    have "length ?R dvd unat l" using al a(1) by blast
    from shred_disk_other[OF this al a(2), of "disk (fd s)"]
    show "read_bytes (disk (fd s')) (unat l) (length (block s)) =
              read_bytes (disk (fd s)) (unat l) (length (block s))"
      unfolding dk by simp
  qed
  have a: "shred_status (dev s) (fd s) (locations s) = ZX_OK \<longrightarrow>
      (\<forall>l\<in>set (locations s). holds (disk (fd s')) l ?R)"
  proof
    assume "shred_status (dev s) (fd s) (locations s) = ZX_OK"
    then have "takeWhile ?ok (locations s) = locations s" by (rule shred_status_ok)
    with h show "\<forall>l\<in>set (locations s). holds (disk (fd s')) l ?R" by simp
  qed
  have ob: "shred_status (dev s) (fd s) (locations s) \<noteq> ZX_OK \<longrightarrow>
      s'\<lparr>fd := fd s, offset := offset s\<rparr> = s\<lparr>block := ?R\<rparr>"
    using Shred_error_object[OF g fuel sh] by blast
  show ?thesis using sh lg dk h u ok a er ob by blast
qed

lemma Randomize_const: "Randomize (\<lambda>i. c) n = replicate n c"
  by (simp add: Randomize_def map_replicate_const)

lemma length_block_raw_volume [simp]: "length (block (raw_volume w)) = 4096"
  by (simp add: raw_volume_def)

text \<open>
  Claim C6, as amended. \<open>Shred\<close> randomizes the block buffer and writes it to the locations
  in order, and stops at the first \<^verbatim>\<open>Write\<close> that fails. Every location before the failing
  one holds the randomized block on disk; the locations after it have received no write
  and keep their content. \<open>Shred\<close> returns the status of the failing write and leaves the
  object as it is, with the randomized block. It returns \<open>ZX_OK\<close>, and resets the object,
  only when every location was written, and then every location holds the randomized
  block.
\<close>

theorem Shred_stops_at_first_error:
  assumes g: "geom_ok s" and fuel: "2 * blocks_per_slice s < fuel"
  shows "\<exists>s'. Shred fuel ent s = Some (shred_status (dev s) (fd s) (locations s), s') \<and>
           wlog (fd s') = rev (shred_written (fd s) (locations s)) @ wlog (fd s) \<and>
           disk (fd s') =
             shred_disk (fd s) (Randomize ent (length (block s))) (locations s) (disk (fd s)) \<and>
           (\<forall>l\<in>set (takeWhile (\<lambda>l. fst (wr_status (fd s) l) = ZX_OK) (locations s)).
              holds (disk (fd s')) l (Randomize ent (length (block s)))) \<and>
           (\<forall>l\<in>set (locations s). l \<notin> set (shred_written (fd s) (locations s)) \<longrightarrow>
              read_bytes (disk (fd s')) (unat l) (length (block s)) =
              read_bytes (disk (fd s)) (unat l) (length (block s))) \<and>
           (shred_status (dev s) (fd s) (locations s) = ZX_OK \<longrightarrow>
              s' = Reset s' \<and>
              (\<forall>l\<in>set (locations s). holds (disk (fd s')) l (Randomize ent (length (block s))))) \<and>
           (shred_status (dev s) (fd s) (locations s) \<noteq> ZX_OK \<longrightarrow>
              block s' = Randomize ent (length (block s)) \<and>
              s'\<lparr>fd := fd s, offset := offset s\<rparr> =
                s\<lparr>block := Randomize ent (length (block s))\<rparr>)"
  using assms by (rule Shred_result_disk)

text \<open>
  Two instances, with a random source that gives the byte 1: on the raw device of 64 blocks
  the four locations are overwritten; on the device whose second metadata block cannot be
  written, the block at offset 0 is overwritten and the two blocks of the last slice are
  not touched.
\<close>

theorem Shred_stops_at_first_error_witness:
  "geom_ok (raw_volume (raw_device 64)) \<and>
   2 * blocks_per_slice (raw_volume (raw_device 64)) < 5 \<and>
   read_bytes (disk (raw_device 64)) 0 4096 = replicate 4096 0 \<and>
   (\<exists>s'. Shred 5 (\<lambda>i. 1) (raw_volume (raw_device 64)) = Some (ZX_OK, s') \<and>
      wlog (fd s') = [258048, 253952, 4096, 0] \<and> s' = Reset s' \<and>
      holds (disk (fd s')) 0 (replicate 4096 1) \<and>
      holds (disk (fd s')) 4096 (replicate 4096 1) \<and>
      holds (disk (fd s')) 253952 (replicate 4096 1) \<and>
      holds (disk (fd s')) 258048 (replicate 4096 1)) \<and>
   geom_ok (raw_volume second_write_fails) \<and>
   (\<exists>s'. Shred 5 (\<lambda>i. 1) (raw_volume second_write_fails) = Some (ZX_ERR_IO, s') \<and>
      wlog (fd s') = [4096, 0] \<and> block s' = replicate 4096 1 \<and>
      holds (disk (fd s')) 0 (replicate 4096 1) \<and>
      read_bytes (disk (fd s')) 253952 4096 = replicate 4096 0 \<and>
      read_bytes (disk (fd s')) 258048 4096 = replicate 4096 0)"
proof -
  have g: "geom_ok (raw_volume (raw_device 64))" by (rule geom_ok_raw_volume)
  have f: "2 * blocks_per_slice (raw_volume (raw_device 64)) < 5" by (simp add: blocks_raw_volume)
  have z: "read_bytes (disk (raw_device 64)) a 4096 = replicate 4096 0" for a
    by (simp add: raw_device_def read_bytes_const)
  have st: "shred_status False (raw_device 64) [0, 4096, 253952, 258048] = ZX_OK"
    by (simp add: raw_device_def)
  have wr: "shred_written (raw_device 64) [0, 4096, 253952, 258048] = [0, 4096, 253952, 258048]"
    by (simp add: raw_device_def)
  have lg: "wlog (raw_device 64) = []" by (simp add: raw_device_def)
  from Shred_stops_at_first_error[OF g f, of "\<lambda>i. 1"]
  obtain s1 where 1:
    "Shred 5 (\<lambda>i. 1) (raw_volume (raw_device 64)) = Some (ZX_OK, s1)"
    "wlog (fd s1) = [258048, 253952, 4096, 0]" "s1 = Reset s1"
    "\<forall>l\<in>set [0, 4096, 253952, 258048 :: 64 word]. holds (disk (fd s1)) l (replicate 4096 1)"
    unfolding locations_raw_volume fd_raw_volume dev_raw_volume st wr lg Randomize_const
      length_block_raw_volume
    by auto
  have g2: "geom_ok (raw_volume second_write_fails)" by (rule geom_ok_raw_volume)
  have f2: "2 * blocks_per_slice (raw_volume second_write_fails) < 5" by (simp add: blocks_raw_volume)
  have z2: "read_bytes (disk second_write_fails) a 4096 = replicate 4096 0" for a
    by (simp add: second_write_fails_def raw_device_def read_bytes_const)
  have st2: "shred_status False second_write_fails [0, 4096, 253952, 258048] = ZX_ERR_IO"
    by (simp add: second_write_fails_def)
  have wr2: "shred_written second_write_fails [0, 4096, 253952, 258048] = [0, 4096]"
    by (simp add: second_write_fails_def)
  have tw2: "takeWhile (\<lambda>l. fst (wr_status second_write_fails l) = ZX_OK)
      [0, 4096, 253952, 258048] = [0]"
    by (simp add: second_write_fails_def)
  have lg2: "wlog second_write_fails = []" by (simp add: second_write_fails_def raw_device_def)
  from Shred_stops_at_first_error[OF g2 f2, of "\<lambda>i. 1"]
  obtain s2 where 2:
    "Shred 5 (\<lambda>i. 1) (raw_volume second_write_fails) = Some (ZX_ERR_IO, s2)"
    "wlog (fd s2) = [4096, 0]" "block s2 = replicate 4096 1"
    "holds (disk (fd s2)) 0 (replicate 4096 1)"
    "read_bytes (disk (fd s2)) (unat (253952 :: 64 word)) 4096 = replicate 4096 0"
    "read_bytes (disk (fd s2)) (unat (258048 :: 64 word)) 4096 = replicate 4096 0"
    unfolding locations_raw_volume fd_raw_volume dev_raw_volume st2 wr2 tw2 lg2 Randomize_const
      length_block_raw_volume z2
    by auto
  from 1 2 g f g2 z[of 0] show ?thesis by auto
qed

text \<open>
  Claim C6 as stated fails on a raw device whose second metadata block (offset 4096) cannot
  be written: \<open>Shred\<close> returns \<open>ZX_ERR_IO\<close> although the block at offset 0 was overwritten,
  and it issues no write to the two blocks of the last slice, which could be written.
\<close>

theorem Shred_write_error_stops:
  "locations (raw_volume second_write_fails) = [0, 4096, 253952, 258048] \<and>
   fst (wr_status second_write_fails 0) = ZX_OK \<and>
   fst (wr_status second_write_fails 4096) = ZX_ERR_IO \<and>
   fst (wr_status second_write_fails 253952) = ZX_OK \<and>
   (\<exists>s'. Shred 5 (\<lambda>i. 0) (raw_volume second_write_fails) = Some (ZX_ERR_IO, s') \<and>
      wlog (fd s') = [4096, 0])"
proof -
  have g: "geom_ok (raw_volume second_write_fails)" by (rule geom_ok_raw_volume)
  have f: "2 * blocks_per_slice (raw_volume second_write_fails) < 5" by (simp add: blocks_raw_volume)
  have st: "shred_status False second_write_fails [0, 4096, 253952, 258048] = ZX_ERR_IO"
    by (simp add: second_write_fails_def)
  have wr: "shred_written second_write_fails [0, 4096, 253952, 258048] = [0, 4096]"
    by (simp add: second_write_fails_def)
  have lg: "wlog second_write_fails = []" by (simp add: second_write_fails_def raw_device_def)
  note r = Shred_result[OF g f, of "\<lambda>i. 0",
      unfolded locations_raw_volume fd_raw_volume dev_raw_volume st wr lg]
  have "fst (wr_status second_write_fails 0) = ZX_OK \<and>
   fst (wr_status second_write_fails 4096) = ZX_ERR_IO \<and>
   fst (wr_status second_write_fails 253952) = ZX_OK"
    by (simp add: second_write_fails_def)
  with r show ?thesis by (auto simp: locations_raw_volume)
qed

subsection \<open>Open\<close>

lemma Configure_same_device:
  "Configure cr v s = Some (rc, s') \<Longrightarrow> same_device s s'"
  unfolding Configure_def Let_def same_device_def
  by (auto split: if_splits prod.splits)

lemma DeriveSlotKeys_same_device:
  "DeriveSlotKeys cr key slot s = (rc, s') \<Longrightarrow> same_device s s'"
  unfolding DeriveSlotKeys_def Let_def same_device_def
  by (auto split: if_splits prod.splits)

lemma same_device_trans: "same_device a b \<Longrightarrow> same_device b c \<Longrightarrow> same_device a c"
  unfolding same_device_def by simp

lemma OpenBlock_same_device:
  assumes "OpenBlock cr key slot s = Some (rc, s')"
  shows "same_device s s'"
proof (cases "take GUID_LEN (block s) \<noteq> take GUID_LEN (kTypeGuid cr)")
  case True
  then show ?thesis using assms unfolding OpenBlock_def same_device_def
    by (auto split: if_splits)
next
  case False
  let ?s1 = "s\<lparr>guid := take GUID_LEN (drop GUID_LEN (block s))\<rparr>"
  let ?v = "ntohl_bytes (take 4 (drop (GUID_LEN + GUID_LEN) (block ?s1)))"
  have len: "\<not> length (block s) < kHeaderLen" using assms unfolding OpenBlock_def
    by (auto split: if_splits)
  obtain rcc s2 where c: "Configure cr ?v ?s1 = Some (rcc, s2)"
    using assms False len unfolding OpenBlock_def Let_def
    by (auto split: option.splits)
  have d2: "same_device s s2" using Configure_same_device[OF c] unfolding same_device_def by simp
  obtain rcd s3 where d: "DeriveSlotKeys cr key slot s2 = (rcd, s3)" by (cases "DeriveSlotKeys cr key slot s2")
  have d3: "same_device s s3"
    using same_device_trans[OF d2 DeriveSlotKeys_same_device[OF d]] .
  have "same_device s2 s' \<or> same_device s3 s'"
    using assms False len c d unfolding OpenBlock_def Let_def same_device_def
    by (auto split: if_splits prod.splits)
  then show ?thesis using d2 d3 same_device_trans by blast
qed

lemma keeps_geometry_Open_body: "keeps_geometry n (Open_body fuel cr key slot)"
  unfolding keeps_geometry_def
proof (intro allI impI)
  fix s s'
  assume l: "length (block s) = n" and b: "Open_body fuel cr key slot s = Some (None, s')"
  obtain rc s1 where r: "Read s = (rc, s1)" by (cases "Read s")
  from Read_shape[OF r] obtain b1 where s1: "s1 = s\<lparr>block := b1\<rparr>" "length b1 = length (block s)"
    by blast
  show "length (block s') = n \<and> fvm s' = fvm s \<and> offset s' = offset s"
  proof (cases "rc = ZX_OK")
    case False
    then have "s' = s1" using b r unfolding Open_body_def by simp
    then show ?thesis using s1 l by simp
  next
    case True
    then obtain rc2 where o: "OpenBlock cr key slot s1 = Some (rc2, s')"
      using b r unfolding Open_body_def by (auto split: option.splits if_splits prod.splits)
    from OpenBlock_same_device[OF o] show ?thesis using s1 l unfolding same_device_def by simp
  qed
qed

lemma visit_Open_body:
  "(case visit (Open_body fuel cr key slot) fin ls s of
      None \<Rightarrow> None
    | Some (Some rc, s') \<Rightarrow> Some (rc, s')
    | Some (None, s') \<Rightarrow> Some (ZX_ERR_ACCESS_DENIED, s')) =
   open_any fuel cr key slot fin ls s"
proof (induction ls arbitrary: s)
  case Nil
  show ?case by simp
next
  case (Cons l ls)
  obtain rc s1 where r: "Read (s\<lparr>offset := l\<rparr>) = (rc, s1)" by (cases "Read (s\<lparr>offset := l\<rparr>)")
  show ?case
  proof (cases "rc = ZX_OK")
    case False
    then have "Open_body fuel cr key slot (s\<lparr>offset := l\<rparr>) = Some (None, s1)"
      using r unfolding Open_body_def by simp
    then show ?thesis using False r Cons.IH[of s1] by simp
  next
    case True
    show ?thesis
    proof (cases "OpenBlock cr key slot s1")
      case None
      then have "Open_body fuel cr key slot (s\<lparr>offset := l\<rparr>) = None"
        using r True unfolding Open_body_def by simp
      then show ?thesis using True r None by simp
    next
      case (Some p)
      obtain rc2 s2 where p: "p = (rc2, s2)" by (cases p)
      show ?thesis
      proof (cases "rc2 = ZX_OK")
        case False
        then have "Open_body fuel cr key slot (s\<lparr>offset := l\<rparr>) = Some (None, s2)"
          using r True Some p unfolding Open_body_def by simp
        then show ?thesis using True r Some p False Cons.IH[of s2] by simp
      next
        case ok: True
        have "Open_body fuel cr key slot (s\<lparr>offset := l\<rparr>) =
           (case CommitBlock fuel s2 of None \<Rightarrow> None | Some (rc, s) \<Rightarrow> Some (Some rc, s))"
          using r True Some p ok unfolding Open_body_def by simp
        then show ?thesis using True r Some p ok
          by (auto split: option.splits)
      qed
    qed
  qed
qed

lemma Open_open_any:
  assumes g: "geom_ok s" and fuel: "2 * blocks_per_slice s < fuel"
  shows "Open fuel cr key slot s = open_any fuel cr key slot (end_offset s) (locations s) s"
  unfolding Open_def iterate_locations[OF g keeps_geometry_Open_body fuel]
  by (rule visit_Open_body)

lemma Open_uninitialized:
  "slice_size (fvm s) = 0 \<Longrightarrow> 0 < fuel \<Longrightarrow> Open fuel cr key slot s = Some (ZX_ERR_ACCESS_DENIED, s)"
  unfolding Open_def Begin_def by (simp add: iterate_stop)

text \<open>
  Claim C2. For every key and slot, on an object with a geometry of whole blocks, the
  private \<open>Open\<close> is \<open>open_any\<close> over the locations in iterator order: it reads each
  location and calls \<open>OpenBlock\<close> on what it read; at the first location where the read and
  \<open>OpenBlock\<close> both return \<open>ZX_OK\<close> it calls \<open>CommitBlock\<close> and returns its result; when the
  read or \<open>OpenBlock\<close> fails at every location it returns \<open>ZX_ERR_ACCESS_DENIED\<close>.
\<close>

theorem Open_first_success:
  assumes "geom_ok s" and "2 * blocks_per_slice s < fuel"
  shows "Open fuel cr key slot s = open_any fuel cr key slot (end_offset s) (locations s) s"
  using assms by (rule Open_open_any)

lemma zero_block_not_guid:
  "take GUID_LEN (replicate 4096 (0::byte)) \<noteq> take GUID_LEN (kTypeGuid ref_crypto)"
proof
  assume "take GUID_LEN (replicate 4096 (0::byte)) = take GUID_LEN (kTypeGuid ref_crypto)"
  then have "hd (take GUID_LEN (replicate 4096 (0::byte))) = hd (take GUID_LEN (kTypeGuid ref_crypto))"
    by simp
  then show False by (simp add: GUID_LEN_def ref_crypto_def)
qed

lemma OpenBlock_zero_block:
  "block s = replicate 4096 0 \<Longrightarrow> OpenBlock ref_crypto key slot s = Some (ZX_ERR_NOT_SUPPORTED, s)"
  unfolding OpenBlock_def using zero_block_not_guid by (simp add: kHeaderLen_def GUID_LEN_def)

lemma Read_zero_disk:
  "block s = replicate 4096 0 \<Longrightarrow> fd s = raw_device n \<Longrightarrow> Read (s\<lparr>offset := l\<rparr>) = (ZX_OK, s\<lparr>offset := l\<rparr>)"
  unfolding Read_def by (simp add: raw_device_def read_bytes_const)

text \<open>
  An instance: on the raw device of 64 zeroed blocks no location begins with the type GUID,
  and \<open>Open\<close> returns \<open>ZX_ERR_ACCESS_DENIED\<close> after the four locations.
\<close>

theorem Open_first_success_witness:
  "geom_ok (raw_volume (raw_device 64)) \<and> 2 * blocks_per_slice (raw_volume (raw_device 64)) < 5 \<and>
   Open 5 ref_crypto (replicate 32 1) 0 (raw_volume (raw_device 64)) =
     open_any 5 ref_crypto (replicate 32 1) 0 (end_offset (raw_volume (raw_device 64)))
       [0, 4096, 253952, 258048] (raw_volume (raw_device 64)) \<and>
   Open 5 ref_crypto (replicate 32 1) 0 (raw_volume (raw_device 64)) =
     Some (ZX_ERR_ACCESS_DENIED,
           (raw_volume (raw_device 64))\<lparr>offset := end_offset (raw_volume (raw_device 64))\<rparr>)"
proof -
  have g: "geom_ok (raw_volume (raw_device 64))" by (rule geom_ok_raw_volume)
  have f: "2 * blocks_per_slice (raw_volume (raw_device 64)) < 5" by (simp add: blocks_raw_volume)
  have b: "block (raw_volume (raw_device 64)) = replicate 4096 0" by (simp add: raw_volume_def)
  note o = Open_first_success[OF g f, of ref_crypto "replicate 32 1" 0, unfolded locations_raw_volume]
  have "open_any 5 ref_crypto (replicate 32 1) 0 (end_offset (raw_volume (raw_device 64)))
       [0, 4096, 253952, 258048] (raw_volume (raw_device 64)) =
     Some (ZX_ERR_ACCESS_DENIED,
           (raw_volume (raw_device 64))\<lparr>offset := end_offset (raw_volume (raw_device 64))\<rparr>)"
    using b by (simp add: Read_zero_disk OpenBlock_zero_block)
  with o g f show ?thesis by simp
qed

subsection \<open>The crypto library\<close>

lemma length_Resize [simp]: "length (Resize n b) = n"
  by (simp add: Resize_def)


subsection \<open>Copies inside the block image\<close>





lemma length_htonl [simp]: "length (htonl_bytes v) = 4"
  by (simp add: htonl_bytes_def)


subsection \<open>CreateBlock, SealBlock and OpenBlock with a working crypto library\<close>













subsection \<open>Create, then Open\<close>

lemma Init_body_world:
  assumes "w' = (fd s)\<lparr>wlog := x, disk := y\<rparr>"
  shows "Init_body (s\<lparr>fd := w'\<rparr>) =
     map_option (\<lambda>(rc, c, s1). (rc, c, s1\<lparr>fd := w'\<rparr>)) (Init_body s)"
  unfolding Init_body_def Let_def assms
  by (simp split: prod.splits)

lemma Init_world:
  assumes "Init (Superblock d w) = Some (rc, s0)"
  shows "Init (Superblock d (w\<lparr>wlog := x, disk := y\<rparr>)) =
     Some (rc, s0\<lparr>fd := w\<lparr>wlog := x, disk := y\<rparr>\<rparr>)"
proof -
  let ?w' = "w\<lparr>wlog := x, disk := y\<rparr>"
  have r: "Reset (Superblock d ?w') = (Reset (Superblock d w))\<lparr>fd := ?w'\<rparr>"
    by (simp add: Superblock_def Reset_def)
  have f: "?w' = (fd (Reset (Superblock d w)))\<lparr>wlog := x, disk := y\<rparr>"
    by (simp add: Superblock_def Reset_def)
  show ?thesis
    using assms unfolding Init_def r Init_body_world[OF f]
    by (auto split: option.splits simp: Reset_def)
qed





lemma Init_raw_volume:
  "Init (Superblock False (raw_device 64)) = Some (ZX_OK, raw_volume (raw_device 64))"
  by (simp add: Init_raw64 raw_volume_def)



subsection \<open>The slots fit in the block\<close>

lemma iterate_invariant:
  assumes body: "\<And>s r s'. I s \<Longrightarrow> body s = Some (r, s') \<Longrightarrow> I s'"
    and nxt: "\<And>s x. I s \<Longrightarrow> I (s\<lparr>offset := x\<rparr>)"
  shows "iterate fuel body (rc, s) = Some (r, s') \<Longrightarrow> I s \<Longrightarrow> I s'"
proof (induction fuel arbitrary: rc s)
  case 0
  then show ?case by simp
next
  case (Suc fuel)
  show ?case
  proof (cases "rc = ZX_ERR_NEXT")
    case False
    then show ?thesis using Suc.prems by simp
  next
    case True
    show ?thesis
    proof (cases "body s")
      case None
      then show ?thesis using Suc.prems True by simp
    next
      case (Some p)
      obtain q t where p: "p = (q, t)" by (cases p)
      have it: "I t" using body[OF Suc.prems(2)] Some p by simp
      show ?thesis
      proof (cases q)
        case (Some x)
        then show ?thesis using Suc.prems(1) True \<open>body s = Some p\<close> p it by simp
      next
        case None
        then obtain rc1 s1 where n: "Next t = Some (rc1, s1)"
          and i: "iterate fuel body (rc1, s1) = Some (r, s')"
          using Suc.prems(1) True \<open>body s = Some p\<close> p by (auto split: option.splits)
        have "\<exists>x. s1 = t\<lparr>offset := x\<rparr>" using n unfolding Next_def Let_def
          by (auto split: if_splits)
        then have "I s1" using nxt[OF it] by auto
        from Suc.IH[OF i this] show ?thesis .
      qed
    qed
  qed
qed

lemma CommitBlock_invariant:
  assumes c: "CommitBlock fuel s = Some (rc, s')"
  shows "slot_len s' = slot_len s \<and> blk s' = blk s"
proof -
  define I where "I = (\<lambda>t :: superblock. slot_len t = slot_len s \<and> blk t = blk s)"
  obtain rc0 s0 where b: "Begin s = (rc0, s0)" by (cases "Begin s")
  have i0: "I s0" using b unfolding Begin_def I_def by (auto split: if_splits)
  obtain r where it: "iterate fuel (CommitBlock_body (block s)) (rc0, s0) = Some (r, s')"
    using c b unfolding CommitBlock_def by (auto split: option.splits)
  have body: "I t'" if "I t" "CommitBlock_body (block s) t = Some (q, t')" for t q t'
  proof -
    obtain w where "CommitBlock_body (block s) t = Some (None, t\<lparr>block := block s, fd := w\<rparr>)"
      using CommitBlock_body_shape[of "block s" t] by blast
    then have "t' = t\<lparr>block := block s, fd := w\<rparr>" using that(2) by simp
    then show ?thesis using that(1) unfolding I_def by simp
  qed
  have nxt: "\<And>t x. I t \<Longrightarrow> I (t\<lparr>offset := x\<rparr>)" unfolding I_def by simp
  have "I s'" using body nxt it i0 by (rule iterate_invariant)
  then show ?thesis unfolding I_def .
qed

lemma DeriveSlotKeys_slot_len:
  "DeriveSlotKeys cr key slot s = (rc, s') \<Longrightarrow> slot_len s' = slot_len s"
  unfolding DeriveSlotKeys_def Let_def by (auto split: if_splits prod.splits)

lemma SealBlock_invariant:
  assumes "SealBlock cr key slot s = Some (rc, s')"
  shows "slot_len s' = slot_len s \<and> blk s' = blk s"
proof -
  obtain rc1 s1 where d: "DeriveSlotKeys cr key slot s = (rc1, s1)"
    by (cases "DeriveSlotKeys cr key slot s")
  have 1: "slot_len s1 = slot_len s" "blk s1 = blk s"
    using DeriveSlotKeys_slot_len[OF d] DeriveSlotKeys_same_device[OF d]
    unfolding same_device_def by simp_all
  have "slot_len s' = slot_len s1 \<and> blk s' = blk s1"
    using assms d unfolding SealBlock_def Let_def
    by (auto split: if_splits prod.splits)
  then show ?thesis using 1 by simp
qed

lemma CreateBlock_slots_fit:
  assumes "CreateBlock cr ent s = Some (ZX_OK, s1)"
  shows "unat (slot_len s1) * unat kNumSlots + kHeaderLen \<le> unat (block_size (blk s1))"
    and "slot_len s1 = version_slot_len cr"
proof -
  let ?s0 = "s\<lparr>block := Randomize ent (length (block s))\<rparr>"
  let ?g0 = "Randomize (skip (length (block ?s0)) ent) GUID_LEN"
  let ?g1 = "?g0[6 := (?g0 ! 6 AND 0x0F) OR 0x40]"
  let ?g2 = "?g1[8 := (?g1 ! 8 AND 0x3F) OR 0x80]"
  let ?sa = "?s0\<lparr>block := memcpy_at (block ?s0) 0 (take GUID_LEN (kTypeGuid cr))\<rparr>"
  let ?sb = "?sa\<lparr>guid := ?g2\<rparr>"
  let ?sc = "?sb\<lparr>block := memcpy_at (block ?sb) GUID_LEN (guid ?sb)\<rparr>"
  obtain t where c: "Configure cr kDefaultVersion ?sc = Some (ZX_OK, t)"
    and e: "slot_len s1 = slot_len t \<and> blk s1 = blk t"
    using assms unfolding CreateBlock_def Let_def
    by (auto split: if_splits option.splits)
  show "unat (slot_len s1) * unat kNumSlots + kHeaderLen \<le> unat (block_size (blk s1))"
    using Configure_ok(4)[OF c] e by simp
  show "slot_len s1 = version_slot_len cr" using Configure_ok(3)[OF c] e by simp
qed

lemma Create_slots_fit:
  assumes "Create fuel cr ent fdesc key = Some (ZX_OK, Some sc)"
  shows "kHeaderLen + unat kNumSlots * unat (slot_len sc) \<le> unat (block_size (blk sc)) \<and>
         slot_len sc = version_slot_len cr"
proof -
  obtain s0 s1 s2 where
    "CreateBlock cr ent s0 = Some (ZX_OK, s1)" "SealBlock cr key 0 s1 = Some (ZX_OK, s2)"
    "CommitBlock fuel s2 = Some (ZX_OK, sc)"
    using assms unfolding Create_def
    by (auto split: option.splits if_splits)
  then show ?thesis
    using CreateBlock_slots_fit[of cr ent s0 s1] SealBlock_invariant[of cr key 0 s1 ZX_OK s2]
      CommitBlock_invariant[of fuel s2 ZX_OK sc]
    by (simp add: mult.commute add.commute)
qed


lemma Configure_rejects:
  assumes "lengths_known cr"
    and "kHeaderLen + unat kNumSlots * unat (version_slot_len cr) < 2 ^ 64"
    and "unat (block_size (blk s)) < kHeaderLen + unat kNumSlots * unat (version_slot_len cr)"
  shows "\<exists>t. Configure cr kAES256_XTS_SHA256 s = Some (ZX_ERR_NOT_SUPPORTED, t)"
  using assms by (simp add: Configure_known Let_def mult.commute add.commute)

lemma ntohl_1: "ntohl_bytes [0, 0, 0, 1] = 1"
  by (simp add: ntohl_bytes_def)

lemma length_header_image: "length v = 4 \<Longrightarrow> length (header_image v) = 4096"
  by (simp add: header_image_def ref_crypto_def)

lemma Init_device_holding:
  "Init (Superblock False (device_holding B)) = Some (ZX_OK, raw_volume (device_holding B))"
proof -
  have w: "device_holding B = (raw_device 64)\<lparr>wlog := [], disk := disk (device_holding B)\<rparr>"
    by (simp add: device_holding_def raw_device_def)
  have "Init (Superblock False (device_holding B)) =
      Some (ZX_OK, (raw_volume (raw_device 64))\<lparr>fd := device_holding B\<rparr>)"
    using Init_world[OF Init_raw_volume, where x = "[]" and y = "disk (device_holding B)"] w by simp
  then show ?thesis by (simp add: raw_volume_def Superblock_def Reset_def)
qed

lemma Read_device_holding:
  assumes "length B = 4096"
  shows "Read ((raw_volume (device_holding B))\<lparr>offset := 0\<rparr>) =
     (ZX_OK, (raw_volume (device_holding B))\<lparr>offset := 0, block := B\<rparr>)"
proof -
  have r: "read_bytes (disk (device_holding B)) 0 4096 = B"
    using assms by (auto simp: device_holding_def read_bytes_def intro: nth_equalityI)
  let ?s = "(raw_volume (device_holding B))\<lparr>offset := 0\<rparr>"
  have ne: "block ?s \<noteq> []" by (simp add: raw_volume_def)
  have st: "fst (rd_status (fd ?s) (offset ?s)) = ZX_OK"
    by (simp add: device_holding_def raw_device_def)
  have "Read ?s = (ZX_OK, ?s\<lparr>block := read_bytes (disk (device_holding B)) 0 4096\<rparr>)"
    using Read_ok[OF ne st] by simp
  then show ?thesis unfolding r by simp
qed

lemma fault_free_device_holding:
  "fault_free (device_holding B) ls"
  by (simp add: fault_free_def device_holding_def raw_device_def list_all_iff)

lemma Open_fd_device_holding:
  assumes B: "length B = 4096"
    and ob: "OpenBlock cr key 0 ((raw_volume (device_holding B))\<lparr>offset := 0, block := B\<rparr>) =
        Some (ZX_OK, s2)"
  shows "\<exists>w. Open_fd 5 cr (Some (device_holding B)) key 0 True =
      Some (ZX_OK, Some (s2\<lparr>offset := end_offset s2, fd := w\<rparr>))"
proof -
  let ?v = "raw_volume (device_holding B)"
  let ?s1 = "?v\<lparr>offset := 0, block := B\<rparr>"
  have f: "2 * blocks_per_slice ?v < 5" by (simp add: blocks_raw_volume)
  have o: "Open 5 cr key 0 ?v = open_any 5 cr key 0 (end_offset ?v) [0, 4096, 253952, 258048] ?v"
    using Open_open_any[OF geom_ok_raw_volume f, of cr key 0] by (simp add: locations_raw_volume)
  have sd: "same_device ?s1 s2" by (rule OpenBlock_same_device[OF ob])
  then have e: "length (block s2) = length (block ?v)" "fvm s2 = fvm ?v" "fd s2 = device_holding B"
    using B unfolding same_device_def by simp_all
  have g2: "geom_ok s2" using geom_ok_cong[OF e(1,2)] geom_ok_raw_volume by simp
  have f2: "2 * blocks_per_slice s2 < 5" using blocks_per_slice_cong[OF e(1,2)] f by simp
  have ff: "fault_free (fd s2) (locations s2)" unfolding e(3) by (rule fault_free_device_holding)
  from CommitBlock_result[OF g2 f2 ff] obtain w where
    c: "CommitBlock 5 s2 = Some (ZX_OK, s2\<lparr>offset := end_offset s2, fd := w\<rparr>)" by blast
  have "Open 5 cr key 0 ?v = Some (ZX_OK, s2\<lparr>offset := end_offset s2, fd := w\<rparr>)"
    unfolding o using Read_device_holding[OF B] ob c by simp
  then have "Open_fd 5 cr (Some (device_holding B)) key 0 True =
      Some (ZX_OK, Some (s2\<lparr>offset := end_offset s2, fd := w\<rparr>))"
    unfolding Open_fd_def Open_static_def
    by (simp add: Init_device_holding kNumSlots_def)
  then show ?thesis by blast
qed

lemma OpenBlock_version2:
  assumes "block s = header_image [0, 0, 0, 2]"
  shows "OpenBlock ref_crypto key slot s = Some (ZX_OK, s\<lparr>guid := replicate 16 7\<rparr>)"
proof -
  have k: "length (kTypeGuid ref_crypto) = 16" by (simp add: ref_crypto_def)
  show ?thesis
    unfolding OpenBlock_def
    by (simp add: assms header_image_def k kHeaderLen_def GUID_LEN_def ntohl_2 Let_def
        Configure_def kAES256_XTS_SHA256_def)
qed

lemma wide_lengths_known: "lengths_known wide_tag_crypto"
  by (simp add: lengths_known_def wide_tag_crypto_def ref_crypto_def)

lemma wide_slot_len: "version_slot_len wide_tag_crypto = 348"
  by (simp add: version_slot_len_def wide_tag_crypto_def ref_crypto_def)

lemma Configure_wide:
  assumes "block_size (blk s) = 4096"
  shows "\<exists>t. Configure wide_tag_crypto kAES256_XTS_SHA256 s = Some (ZX_ERR_NOT_SUPPORTED, t) \<and>
     slot_len t = 348 \<and> blk t = blk s"
  using assms
  by (simp add: Configure_known[OF wide_lengths_known] wide_slot_len Let_def kNumSlots_def
      kHeaderLen_def GUID_LEN_def)

lemma OpenBlock_wide:
  assumes b: "block s = header_image [0, 0, 0, 1]" and bs: "block_size (blk s) = 4096"
  shows "\<exists>t. OpenBlock wide_tag_crypto key slot s = Some (ZX_OK, t) \<and>
     slot_len t = 348 \<and> blk t = blk s"
proof -
  have k: "length (kTypeGuid wide_tag_crypto) = 16" "kTypeGuid wide_tag_crypto = kTypeGuid ref_crypto"
    by (simp_all add: wide_tag_crypto_def ref_crypto_def)
  let ?s1 = "s\<lparr>guid := take GUID_LEN (drop GUID_LEN (block s))\<rparr>"
  from Configure_wide[of ?s1] bs obtain t where
    c: "Configure wide_tag_crypto kAES256_XTS_SHA256 ?s1 = Some (ZX_ERR_NOT_SUPPORTED, t)"
    and t: "slot_len t = 348" "blk t = blk s" by auto
  have v: "ntohl_bytes (take 4 (drop (GUID_LEN + GUID_LEN) (block ?s1))) = kAES256_XTS_SHA256"
    by (simp add: b header_image_def k GUID_LEN_def ref_crypto_def ntohl_1 kAES256_XTS_SHA256_def)
  have g: "take GUID_LEN (block s) = take GUID_LEN (kTypeGuid wide_tag_crypto)"
    by (simp add: b header_image_def k GUID_LEN_def ref_crypto_def)
  have l: "\<not> length (block s) < kHeaderLen"
    by (simp add: b header_image_def ref_crypto_def kHeaderLen_def GUID_LEN_def)
  have "OpenBlock wide_tag_crypto key slot s = Some (ZX_OK, t)"
    unfolding OpenBlock_def Let_def v using g l c by simp
  then show ?thesis using t by blast
qed

text \<open>
  Claim C7 does not hold of the code. \<open>Configure\<close> does establish
  \<open>kHeaderLen + kNumSlots * slot_len \<le> block_size\<close> when it returns \<open>ZX_OK\<close>, it returns
  \<open>ZX_ERR_NOT_SUPPORTED\<close> when the slots do not fit, and \<open>Create\<close> returns \<open>ZX_OK\<close> only after
  it (lemmas \<open>Configure_ok\<close>, \<open>Configure_rejects\<close>, \<open>Create_slots_fit\<close>). But \<open>OpenBlock\<close>
  compares the status of \<open>Configure\<close> with \<open>rc\<close> and does not keep it, so \<open>Open\<close> returns
  \<open>ZX_OK\<close> on an object that \<open>Configure\<close> has rejected. On the raw device whose first block carries version
  2, \<open>Open\<close> returns \<open>ZX_OK\<close> with the slot length still 0, where that of version 1 is 64,
  no algorithm and no data key. With the crypto library whose tag has 300 bytes and a first
  block of version 1, \<open>Open\<close> returns \<open>ZX_OK\<close> with a slot length of 348: sixteen slots need
  5604 bytes and the block has 4096.
\<close>

theorem Open_succeeds_unconfigured:
  "(\<exists>so. Open_fd 5 ref_crypto (Some (device_holding (header_image [0, 0, 0, 2])))
            (replicate 32 1) 0 True = Some (ZX_OK, Some so) \<and>
      slot_len so = 0 \<and> version_slot_len ref_crypto = 64 \<and>
      aead so = AEAD_kUninitialized \<and> cipher so = Cipher_kUninitialized \<and>
      data_key so = [] \<and> data_iv so = []) \<and>
   (\<exists>so. Open_fd 5 wide_tag_crypto (Some (device_holding (header_image [0, 0, 0, 1])))
            (replicate 32 1) 0 True = Some (ZX_OK, Some so) \<and>
      slot_len so = 348 \<and> block_size (blk so) = 4096 \<and>
      unat (block_size (blk so)) < kHeaderLen + unat kNumSlots * unat (slot_len so))"
proof
  let ?B = "header_image [0, 0, 0, 2]"
  let ?s1 = "(raw_volume (device_holding ?B))\<lparr>offset := 0, block := ?B\<rparr>"
  have B: "length ?B = 4096" by (simp add: length_header_image)
  have ob: "OpenBlock ref_crypto (replicate 32 1) 0 ?s1 = Some (ZX_OK, ?s1\<lparr>guid := replicate 16 7\<rparr>)"
    by (rule OpenBlock_version2) simp
  from Open_fd_device_holding[OF B ob] obtain w where
    "Open_fd 5 ref_crypto (Some (device_holding ?B)) (replicate 32 1) 0 True =
      Some (ZX_OK, Some (?s1\<lparr>guid := replicate 16 7,
         offset := end_offset (?s1\<lparr>guid := replicate 16 7\<rparr>), fd := w\<rparr>))"
    by auto
  then show "\<exists>so. Open_fd 5 ref_crypto (Some (device_holding ?B))
            (replicate 32 1) 0 True = Some (ZX_OK, Some so) \<and>
      slot_len so = 0 \<and> version_slot_len ref_crypto = 64 \<and>
      aead so = AEAD_kUninitialized \<and> cipher so = Cipher_kUninitialized \<and>
      data_key so = [] \<and> data_iv so = []"
    by (simp add: ref_slot_len raw_volume_def Superblock_def Reset_def)
next
  let ?B = "header_image [0, 0, 0, 1]"
  let ?s1 = "(raw_volume (device_holding ?B))\<lparr>offset := 0, block := ?B\<rparr>"
  have B: "length ?B = 4096" by (simp add: length_header_image)
  have bs: "block_size (blk ?s1) = 4096" by (simp add: raw_volume_def)
  from OpenBlock_wide[of ?s1 "replicate 32 1" 0] bs obtain t where
    ob: "OpenBlock wide_tag_crypto (replicate 32 1) 0 ?s1 = Some (ZX_OK, t)"
    and t: "slot_len t = 348" "blk t = blk ?s1" by auto
  from Open_fd_device_holding[OF B ob] obtain w where
    "Open_fd 5 wide_tag_crypto (Some (device_holding ?B)) (replicate 32 1) 0 True =
      Some (ZX_OK, Some (t\<lparr>offset := end_offset t, fd := w\<rparr>))"
    by auto
  then show "\<exists>so. Open_fd 5 wide_tag_crypto (Some (device_holding ?B))
            (replicate 32 1) 0 True = Some (ZX_OK, Some so) \<and>
      slot_len so = 348 \<and> block_size (blk so) = 4096 \<and>
      unat (block_size (blk so)) < kHeaderLen + unat kNumSlots * unat (slot_len so)"
    using t bs by (simp add: kHeaderLen_def GUID_LEN_def kNumSlots_def)
qed

end
